theory Spec2Isabelle
  imports Main "HOL-Library.AList"
begin

section \<open>Strings and raw values\<close>

text \<open>
  A JavaScript string is a sequence of UTF-16 code units and \<open>.length\<close> counts them.
  The model uses \<^typ>\<open>string\<close> for the strings of a document: a \<^typ>\<open>char\<close> stands for the
  code unit of the same number, so the model covers the documents whose code units are
  below 256 (ASCII and Latin-1). Output on the console (\<open>console.warn\<close>,
  \<open>console.log\<close>, \<open>console.error\<close>) is not part of the model.

  \<open>toLowerCase\<close> keeps a code unit below 256 below 256. \<open>toUpperCase\<close> does not: the micro
  sign U+00B5 becomes the Greek capital mu U+039C and y with diaeresis U+00FF becomes
  U+0178. A \<open>code_unit\<close> is a code unit below 256 or one of these two, which are their own
  upper-case forms, and the strings the code makes with \<open>toUpperCase\<close> are lists of them.
\<close>

definition is_ws :: "char \<Rightarrow> bool" where
  \<comment> \<open>White space and line terminators of ECMAScript among the code units below 256.\<close>
  "is_ws c = (c \<in> set [CHR 0x09, CHR 0x0A, CHR 0x0B, CHR 0x0C, CHR 0x0D, CHR 0x20, CHR 0xA0])"

definition trim :: "string \<Rightarrow> string" where
  "trim s = rev (dropWhile is_ws (rev (dropWhile is_ws s)))"

definition lower_char :: "char \<Rightarrow> char" where
  "lower_char c =
     (let n = (of_char c :: nat)
      in if (65 \<le> n \<and> n \<le> 90) \<or> (192 \<le> n \<and> n \<le> 222 \<and> n \<noteq> 215)
         then char_of (n + 32) else c)"

definition toLowerCase :: "string \<Rightarrow> string" where
  "toLowerCase s = map lower_char s"

datatype code_unit = Latin1 char | Capital_Mu | Capital_Y_Diaeresis

type_synonym ustring = "code_unit list"

abbreviation wide :: "string \<Rightarrow> ustring" where
  "wide s \<equiv> map Latin1 s"

definition upper_char :: "char \<Rightarrow> ustring" where
  \<comment> \<open>\<open>toUpperCase\<close> of one code unit below 256. The sharp s U+00DF becomes two letters.\<close>
  "upper_char c =
     (let n = (of_char c :: nat)
      in if (97 \<le> n \<and> n \<le> 122) \<or> (224 \<le> n \<and> n \<le> 254 \<and> n \<noteq> 247)
         then [Latin1 (char_of (n - 32))]
         else if n = 223 then wide ''SS''
         else if n = 181 then [Capital_Mu]
         else if n = 255 then [Capital_Y_Diaeresis]
         else [Latin1 c])"

fun upper_unit :: "code_unit \<Rightarrow> ustring" where
  "upper_unit (Latin1 c) = upper_char c"
| "upper_unit Capital_Mu = [Capital_Mu]"
| "upper_unit Capital_Y_Diaeresis = [Capital_Y_Diaeresis]"

definition is_line_terminator :: "char \<Rightarrow> bool" where
  \<comment> \<open>The characters that \<open>.\<close> of a regular expression does not match.\<close>
  "is_line_terminator c = (c = CHR 0x0A \<or> c = CHR 0x0D)"

fun unit_line_terminator :: "code_unit \<Rightarrow> bool" where
  "unit_line_terminator (Latin1 c) = is_line_terminator c"
| "unit_line_terminator Capital_Mu = False"
| "unit_line_terminator Capital_Y_Diaeresis = False"

text \<open>
  A raw JavaScript value, as a loosely typed document holds it. Arrays are held by value,
  objects by reference: \<open>VObj a\<close> is the object at address \<open>a\<close> of a store. Numbers are
  the integers.
\<close>

datatype val =
    VUndef
  | VNull
  | VBool bool
  | VNum int
  | VStr string
  | VArr "val list"
  | VObj nat

fun truthy :: "val \<Rightarrow> bool" where
  "truthy VUndef = False"
| "truthy VNull = False"
| "truthy (VBool b) = b"
| "truthy (VNum n) = (n \<noteq> 0)"
| "truthy (VStr s) = (s \<noteq> [])"
| "truthy (VArr xs) = True"
| "truthy (VObj a) = True"

section \<open>The document model\<close>

text \<open>
  The part of an OpenAPI document that the code reads. An optional property is an
  \<open>option\<close>, \<open>None\<close> standing for \<open>undefined\<close> and for \<open>null\<close> where the code treats them
  alike (\<open>!x\<close>, \<open>x || y\<close>, \<open>Array.isArray(x)\<close>). The \<open>security\<close> of an operation is a
  \<open>field\<close>, since the code compares it with \<open>null\<close>. Extension values (\<open>x-mcp\<close>) and
  schemas are raw values. A security requirement lists the scopes of each scheme. The
  record of an object's properties is in the order \<open>Object.entries\<close> gives them.
\<close>

datatype 'a field = Unset | Null | Val 'a

type_synonym security_requirement = "(string \<times> string list) list"

record parameter =
  p_name :: string
  p_in :: string
  p_description :: "string option"
  p_required :: bool
  p_schema :: val

record media_type =
  m_schema :: val

record request_body =
  rb_description :: "string option"
  rb_required :: bool
  rb_content :: "(string \<times> media_type) list option"

record operation =
  op_operationId :: "string option"
  op_summary :: "string option"
  op_description :: "string option"
  op_x_ai_description :: "string option"
  op_deprecated :: "bool option"
  op_security :: "security_requirement list field"
  op_parameters :: "parameter list option"
  op_requestBody :: "request_body option"
  op_x_mcp :: val

text \<open>
  The values of \<open>OpenAPIV3.HttpMethods\<close>, in the order \<open>Object.values\<close> lists them.
\<close>

datatype http_method = GET | PUT | POST | DELETE | OPTIONS | HEAD | PATCH | TRACE

definition HttpMethods :: "http_method list" where
  "HttpMethods = [GET, PUT, POST, DELETE, OPTIONS, HEAD, PATCH, TRACE]"

fun method_name :: "http_method \<Rightarrow> string" where
  "method_name GET = ''get''"
| "method_name PUT = ''put''"
| "method_name POST = ''post''"
| "method_name DELETE = ''delete''"
| "method_name OPTIONS = ''options''"
| "method_name HEAD = ''head''"
| "method_name PATCH = ''patch''"
| "method_name TRACE = ''trace''"

record path_item =
  pi_operations :: "http_method \<Rightarrow> operation option"
  pi_parameters :: "parameter list option"
  pi_x_mcp :: val

record document =
  api_security :: "security_requirement list option"
  api_paths :: "(string \<times> path_item) list option"
  api_x_mcp :: val

text \<open>
  \<open>new AAPOperationObject(rawOperation)\<close>: the raw operation, with \<open>deprecated\<close> and
  \<open>x-ai-description\<close> defaulted.
\<close>

record aap_operation =
  x_ai_description :: string
  aap_deprecated :: bool
  raw :: operation

definition AAPOperationObject :: "operation \<Rightarrow> aap_operation" where
  "AAPOperationObject rawOperation =
     \<lparr> x_ai_description =
         (case op_x_ai_description rawOperation of Some s \<Rightarrow> s | None \<Rightarrow> []),
       aap_deprecated =
         (case op_deprecated rawOperation of Some b \<Rightarrow> b | None \<Rightarrow> False),
       raw = rawOperation \<rparr>"

section \<open>Inclusion flags\<close>

definition normalizeBoolean :: "val \<Rightarrow> bool option" where
  "normalizeBoolean v =
     (case v of
        VBool b \<Rightarrow> Some b
      | VStr s \<Rightarrow>
          (let normalized = toLowerCase (trim s)
           in if normalized \<in> set [''true'', ''1'', ''yes'', ''on''] then Some True
              else if normalized \<in> set [''false'', ''0'', ''no'', ''off''] then Some False
              else None)
      | _ \<Rightarrow> None)"

definition shouldIncludeOperationForMcp ::
  "document \<Rightarrow> path_item \<Rightarrow> aap_operation \<Rightarrow> bool \<Rightarrow> bool" where
  "shouldIncludeOperationForMcp api pathItem operation defaultInclude =
     (let opRaw = op_x_mcp (raw operation)
      in case normalizeBoolean opRaw of
           Some opVal \<Rightarrow> opVal
         | None \<Rightarrow>
             (let pathRaw = pi_x_mcp pathItem
              in case normalizeBoolean pathRaw of
                   Some pathVal \<Rightarrow> pathVal
                 | None \<Rightarrow>
                     (let rootRaw = api_x_mcp api
                      in case normalizeBoolean rootRaw of
                           Some rootVal \<Rightarrow> rootVal
                         | None \<Rightarrow> defaultInclude)))"

text \<open>
  The claim's reading of the resolver: the levels in the order operation, path item,
  root; the first one whose value is determinate decides.
\<close>

definition first_determinate :: "val list \<Rightarrow> bool \<Rightarrow> bool" where
  "first_determinate levels defaultInclude =
     (case List.map_filter normalizeBoolean levels of
        b # _ \<Rightarrow> b
      | [] \<Rightarrow> defaultInclude)"

section \<open>Operation names\<close>

text \<open>
  \<open>titleCase\<close> and \<open>generateOperationId\<close>, one definition for each \<open>replace\<close> of the
  source, then the sanitizing of a name and the loop that makes it unused.
\<close>

fun replace_separators :: "string \<Rightarrow> ustring" where
  \<comment> \<open>\<open>.replace(/[-_/](.)/g, (_, char) => char.toUpperCase())\<close>, on a lower-cased string\<close>
  "replace_separators [] = []"
| "replace_separators [c] = [Latin1 c]"
| "replace_separators (c # d # cs) =
     (if c \<in> set ''-_/'' \<and> \<not> is_line_terminator d
      then upper_char d @ replace_separators cs
      else Latin1 c # replace_separators (d # cs))"

definition remove_leading_brace :: "ustring \<Rightarrow> ustring" where
  \<comment> \<open>\<open>.replace(/^{/, "")\<close>\<close>
  "remove_leading_brace s =
     (case s of u # us \<Rightarrow> if u = Latin1 CHR ''{'' then us else s | [] \<Rightarrow> [])"

definition remove_trailing_brace :: "ustring \<Rightarrow> ustring" where
  \<comment> \<open>\<open>.replace(/}$/, "")\<close>\<close>
  "remove_trailing_brace s =
     (if s \<noteq> [] \<and> last s = Latin1 CHR ''}'' then butlast s else s)"

definition capitalize_first :: "ustring \<Rightarrow> ustring" where
  \<comment> \<open>\<open>.replace(/^./, (char) => char.toUpperCase())\<close>\<close>
  "capitalize_first s =
     (case s of
        u # us \<Rightarrow> if unit_line_terminator u then s else upper_unit u @ us
      | [] \<Rightarrow> [])"

definition titleCase :: "string \<Rightarrow> ustring" where
  "titleCase str =
     capitalize_first (remove_trailing_brace (remove_leading_brace
       (replace_separators (toLowerCase str))))"

definition startsWith :: "string \<Rightarrow> string \<Rightarrow> bool" where
  "startsWith s p = (take (length p) s = p)"

definition endsWith :: "string \<Rightarrow> string \<Rightarrow> bool" where
  "endsWith s p = (length p \<le> length s \<and> drop (length s - length p) s = p)"

text \<open>\<open>s.split(sep)\<close> for a separator that is not empty.\<close>

function split :: "string \<Rightarrow> string \<Rightarrow> string list" where
  "split sep [] = [[]]"
| "split sep (c # cs) =
     (if sep \<noteq> [] \<and> startsWith (c # cs) sep
      then [] # split sep (drop (length sep) (c # cs))
      else (case split sep cs of p # ps \<Rightarrow> (c # p) # ps | [] \<Rightarrow> [[c]]))"
  by pat_completeness auto
termination
  by (relation "measure (\<lambda>(sep, s). length s)") simp_all

definition generateOperationId :: "string \<Rightarrow> string \<Rightarrow> ustring" where
  "generateOperationId method path =
     (let parts = filter (\<lambda>p. p \<noteq> []) (split ''/'' path)
      in foldl (\<lambda>name (index, part).
                  if startsWith part ''{'' \<and> endsWith part ''}''
                  then (if index = length parts - 1 then name @ wide ''By'' @ titleCase part
                        else name)
                  else name @ titleCase part)
           (wide (toLowerCase method)) (List.enumerate 0 parts))"

definition allowed_char :: "char \<Rightarrow> bool" where
  \<comment> \<open>The class \<open>[a-z0-9_-]\<close> under the flag \<open>i\<close>.\<close>
  "allowed_char c =
     (let n = (of_char c :: nat)
      in (97 \<le> n \<and> n \<le> 122) \<or> (65 \<le> n \<and> n \<le> 90) \<or> (48 \<le> n \<and> n \<le> 57)
         \<or> c = CHR ''_'' \<or> c = CHR ''-'')"

definition sanitize :: "ustring \<Rightarrow> string" where
  \<comment> \<open>\<open>.replace(/\./g, "_").replace(/[^a-z0-9_-]/gi, "_")\<close>: every code unit of the result
      is in the class, so the result is a \<open>string\<close>.\<close>
  "sanitize s =
     map (\<lambda>u. case u of
                Latin1 c \<Rightarrow> if allowed_char c then c else CHR ''_''
              | _ \<Rightarrow> CHR ''_'')
       (map (\<lambda>u. if u = Latin1 CHR ''.'' then Latin1 CHR ''_'' else u) s)"

definition digit_char :: "nat \<Rightarrow> char" where
  "digit_char d = char_of (48 + d)"

function decimal :: "nat \<Rightarrow> string" where
  "decimal n =
     (if n < 10 then [digit_char n] else decimal (n div 10) @ [digit_char (n mod 10)])"
  by pat_completeness auto
termination
  by (relation "measure id") auto

declare decimal.simps [simp del]

definition max_length :: "string list \<Rightarrow> nat" where
  "max_length names = foldr (\<lambda>u m. max (length u) m) names 0"

lemma max_length_ge: "u \<in> set names \<Longrightarrow> length u \<le> max_length names"
  by (induction names) (auto simp: max_length_def)

text \<open>
  The loop \<open>while (usedNames.has(nameCandidate)) nameCandidate = `${nameCandidate}_${counter++}`\<close>.
  Every round makes the candidate longer, and the used names are finitely many.
\<close>

function uniqueName :: "string list \<Rightarrow> string \<Rightarrow> nat \<Rightarrow> string" where
  "uniqueName usedNames nameCandidate counter =
     (if nameCandidate \<in> set usedNames
      then uniqueName usedNames (nameCandidate @ ''_'' @ decimal counter) (Suc counter)
      else nameCandidate)"
  by pat_completeness auto
termination
  by (relation "measure (\<lambda>(usedNames, nameCandidate, counter).
        Suc (max_length usedNames) - length nameCandidate)")
     (auto dest: max_length_ge)

declare uniqueName.simps [simp del]

section \<open>Schema translation\<close>

text \<open>
  The schemas of a document are objects that refer to each other, and the translator
  tells them apart by identity. The model keeps them in a store, a list of objects, and
  an object's identity is its address, its index in the store. An object is the list of
  its own properties in the order JavaScript enumerates them, its keys distinct. An
  address with no object at it does not occur in JavaScript; the model reads it as an
  object without properties.

  The result of the translator is made of new objects (\<open>OObj\<close>) whose properties hold
  either new objects or values taken over as they are (\<open>OVal\<close>), which may still refer to
  objects of the store. Where the source pushes \<open>"null"\<close> onto a \<open>type\<close> array that the copy
  shares with the schema, the model gives the result the longer array and leaves the store
  as it is: a later visit of the same schema finds \<open>"null"\<close> there or adds it, with the
  same result.
\<close>

type_synonym obj = "(string \<times> val) list"
type_synonym store = "obj list"

datatype out = OVal val | OObj "(string \<times> out) list"

definition get :: "obj \<Rightarrow> string \<Rightarrow> val" where
  "get ob k = (case map_of ob k of Some v \<Rightarrow> v | None \<Rightarrow> VUndef)"

definition has_key :: "string \<Rightarrow> obj \<Rightarrow> bool" where
  "has_key k ob = (k \<in> set (map fst ob))"

definition array_entries :: "val list \<Rightarrow> obj" where
  "array_entries xs = map (\<lambda>(i, x). (decimal i, x)) (List.enumerate 0 xs)"

definition entries :: "store \<Rightarrow> val \<Rightarrow> obj" where
  "entries st v =
     (case v of
        VObj b \<Rightarrow> (if b < length st then st ! b else [])
      | VArr xs \<Rightarrow> array_entries xs
      | VStr s \<Rightarrow> array_entries (map (\<lambda>c. VStr [c]) s)
      | _ \<Rightarrow> [])"

definition spread :: "obj \<Rightarrow> (string \<times> out) list" where
  "spread ob = map (\<lambda>(k, v). (k, OVal v)) ob"

definition generic_object :: out where
  "generic_object = OObj [(''type'', OVal (VStr ''object''))]"

definition is_object :: "val \<Rightarrow> bool" where
  "is_object v = (case v of VObj b \<Rightarrow> True | VArr xs \<Rightarrow> True | _ \<Rightarrow> False)"

definition is_boolean :: "val \<Rightarrow> bool" where
  "is_boolean v = (case v of VBool b \<Rightarrow> True | _ \<Rightarrow> False)"

definition openapi_only :: "string list" where
  "openapi_only =
     [''nullable'', ''example'', ''xml'', ''externalDocs'', ''deprecated'', ''readOnly'', ''writeOnly'']"

definition add_null :: "obj \<Rightarrow> obj" where
  "add_null jsonSchema =
     (case get jsonSchema ''type'' of
        VArr ts \<Rightarrow>
          if VStr ''null'' \<in> set ts then jsonSchema
          else AList.update ''type'' (VArr (ts @ [VStr ''null''])) jsonSchema
      | VStr t \<Rightarrow> AList.update ''type'' (VArr [VStr t, VStr ''null'']) jsonSchema
      | t \<Rightarrow> if \<not> truthy t then AList.update ''type'' (VStr ''null'') jsonSchema else jsonSchema)"

definition convert_keywords :: "obj \<Rightarrow> obj" where
  "convert_keywords schema =
     (let jsonSchema = schema;
          jsonSchema = (if get schema ''type'' = VStr ''integer''
                        then AList.update ''type'' (VStr ''number'') jsonSchema else jsonSchema);
          jsonSchema = foldl (\<lambda>js k. AList.delete k js) jsonSchema openapi_only
      in if truthy (get schema ''nullable'') then add_null jsonSchema else jsonSchema)"

definition array_copy :: "val list \<Rightarrow> out" where
  "array_copy xs = OObj (spread (array_entries xs))"

lemma unseen_decreases:
  assumes "\<not> length st \<le> a" "a \<notin> set seen"
  shows "card ({..<length st} - set (a # seen)) < card ({..<length (st :: 'a list)} - set seen)"
proof (rule psubset_card_mono)
  show "finite ({..<length st} - set seen)" by simp
  have "a \<in> {..<length st} - set seen" using assms by simp
  moreover have "a \<notin> {..<length st} - set (a # seen)" by simp
  moreover have "{..<length st} - set (a # seen) \<subseteq> {..<length st} - set seen" by auto
  ultimately show "{..<length st} - set (a # seen) \<subset> {..<length st} - set seen" by blast
qed

function mapNode :: "store \<Rightarrow> nat list \<Rightarrow> nat \<Rightarrow> out" where
  "mapNode st seen a =
     (if length st \<le> a then OObj []
      else if has_key ''$ref'' (st ! a) then generic_object
      else if a \<in> set seen then generic_object
      else
        let jsonSchema = convert_keywords (st ! a);
            properties = get jsonSchema ''properties'';
            items = get jsonSchema ''items'';
            js1 =
              (if get jsonSchema ''type'' = VStr ''object'' \<and> truthy properties
               then AList.update ''properties''
                      (OObj (map (\<lambda>(key, propSchema).
                                (key, case propSchema of
                                        VObj b \<Rightarrow> mapNode st (a # seen) b
                                      | VArr xs \<Rightarrow> array_copy xs
                                      | _ \<Rightarrow> OVal propSchema))
                             (filter (\<lambda>(key, propSchema). is_object propSchema \<or> is_boolean propSchema)
                                (entries st properties))))
                      (spread jsonSchema)
               else spread jsonSchema)
        in OObj (if get jsonSchema ''type'' = VStr ''array'' \<and> is_object items
                 then AList.update ''items''
                        (case items of
                           VObj b \<Rightarrow> mapNode st (a # seen) b
                         | VArr xs \<Rightarrow> array_copy xs
                         | _ \<Rightarrow> OVal items) js1
                 else js1))"
  by pat_completeness auto

text \<open>
  The recursion ends on every store, cyclic ones included: a call is made only for a node
  that is in the store and not on the path, and the path grows by that node.
\<close>

lemma mapNode_total: "All mapNode_dom"
proof (rule "mapNode.termination"
    [where R = "measure (\<lambda>(st, seen, a). card ({..<length st} - set seen))"], goal_cases)
  case 1
  show ?case by simp
next
  case (2 st seen a)
  from 2(1) 2(3)
  have "card ({..<length st} - set (a # seen)) < card ({..<length st} - set seen)"
    by (rule unseen_decreases)
  then show ?case by simp
next
  case (3 st seen a)
  from 3(1) 3(3)
  have "card ({..<length st} - set (a # seen)) < card ({..<length st} - set seen)"
    by (rule unseen_decreases)
  then show ?case by simp
qed

termination mapNode
  by (rule mapNode_total)

declare mapNode.simps [simp del]

text \<open>
  \<open>mapOpenApiSchemaToJsonSchema(schema, seen)\<close>. The test \<open>"$ref" in schema\<close> comes first
  and throws a \<open>TypeError\<close> on a value that is not an object, so the test for a boolean
  schema after it is never reached with a boolean. \<open>mapNode\<close> is the body of the function
  for the object at an address; an array has no \<open>type\<close> and is copied key by key.
\<close>

datatype error = TypeError | InvalidSessionId | UnknownTool string

definition mapOpenApiSchemaToJsonSchema :: "store \<Rightarrow> nat list \<Rightarrow> val \<Rightarrow> error + out" where
  "mapOpenApiSchemaToJsonSchema st seen schema =
     (case schema of
        VObj a \<Rightarrow> Inr (mapNode st seen a)
      | VArr xs \<Rightarrow> Inr (array_copy xs)
      | _ \<Rightarrow> Inl TypeError)"

section \<open>Input schema and parameters\<close>

text \<open>
  \<open>generateInputSchemaAndDetails\<close>: the merge of the two parameter lists
  (\<open>mergeParameters\<close>, the loop over \<open>operationParameters.concat(pathParametersResolved)\<close>),
  the loop that gives every parameter its schema (\<open>addParameters\<close>), and the request body
  (\<open>addRequestBody\<close>). An exception of the schema translator ends the function.
\<close>

fun findIndex :: "('a \<Rightarrow> bool) \<Rightarrow> 'a list \<Rightarrow> nat option" where
  "findIndex P [] = None"
| "findIndex P (x # xs) = (if P x then Some 0 else map_option Suc (findIndex P xs))"

definition mergeParameters :: "parameter list \<Rightarrow> parameter list \<Rightarrow> parameter list" where
  "mergeParameters operationParameters pathParametersResolved =
     foldl (\<lambda>allParameters opParam.
              case findIndex (\<lambda>pathParam. p_name pathParam = p_name opParam
                                \<and> p_in pathParam = p_in opParam) allParameters of
                Some existingIndex \<Rightarrow> allParameters[existingIndex := opParam]
              | None \<Rightarrow> allParameters @ [opParam])
       [] (operationParameters @ pathParametersResolved)"

definition out_get :: "(string \<times> out) list \<Rightarrow> string \<Rightarrow> out" where
  "out_get fs k = (case map_of fs k of Some v \<Rightarrow> v | None \<Rightarrow> OVal VUndef)"

fun out_truthy :: "out \<Rightarrow> bool" where
  "out_truthy (OVal v) = truthy v"
| "out_truthy (OObj fs) = True"

definition or_else :: "string option \<Rightarrow> out \<Rightarrow> out" where
  \<comment> \<open>\<open>s || alt\<close> for an optional string \<open>s\<close>\<close>
  "or_else s alt = (case s of Some t \<Rightarrow> if t \<noteq> [] then OVal (VStr t) else alt | None \<Rightarrow> alt)"

fun addParameters ::
  "store \<Rightarrow> parameter list \<Rightarrow> (string \<times> out) list \<Rightarrow> string list \<Rightarrow>
   error + ((string \<times> out) list \<times> string list)" where
  "addParameters st [] properties required = Inr (properties, required)"
| "addParameters st (param # ps) properties required =
     (if p_name param = [] \<or> \<not> truthy (p_schema param)
      then addParameters st ps properties required
      else
        case mapOpenApiSchemaToJsonSchema st [] (p_schema param) of
          Inl e \<Rightarrow> Inl e
        | Inr paramSchema \<Rightarrow>
            let paramSchema =
                  (case paramSchema of
                     OObj fs \<Rightarrow>
                       OObj (AList.update ''description''
                               (or_else (p_description param) (out_get fs ''description'')) fs)
                   | OVal v \<Rightarrow> OVal v)
            in addParameters st ps (AList.update (p_name param) paramSchema properties)
                 (if p_required param then required @ [p_name param] else required))"

definition addRequestBody ::
  "store \<Rightarrow> request_body \<Rightarrow> (string \<times> out) list \<Rightarrow> string list \<Rightarrow>
   error + ((string \<times> out) list \<times> string list \<times> string option)" where
  "addRequestBody st opRequestBody properties required =
     (let jsonContent =
            (case rb_content opRequestBody of
               Some content \<Rightarrow> map_of content ''application/json''
             | None \<Rightarrow> None);
          firstContent =
            (case rb_content opRequestBody of
               Some (e # es) \<Rightarrow> Some e
             | _ \<Rightarrow> None);
          required' = (if rb_required opRequestBody then required @ [''requestBody'']
                       else required)
      in if (case jsonContent of Some m \<Rightarrow> truthy (m_schema m) | None \<Rightarrow> False)
         then
           (case mapOpenApiSchemaToJsonSchema st []
                   (case jsonContent of Some m \<Rightarrow> m_schema m | None \<Rightarrow> VUndef) of
              Inl e \<Rightarrow> Inl e
            | Inr bodySchema \<Rightarrow>
                let bodySchema =
                      (case bodySchema of
                         OObj fs \<Rightarrow>
                           OObj (AList.update ''description''
                                   (or_else (rb_description opRequestBody)
                                      (if out_truthy (out_get fs ''description'')
                                       then out_get fs ''description''
                                       else OVal (VStr ''The JSON request body.''))) fs)
                       | OVal v \<Rightarrow> OVal v)
                in Inr (AList.update ''requestBody'' bodySchema properties, required',
                        Some ''application/json''))
         else
           (case firstContent of
              Some (contentType, m) \<Rightarrow>
                Inr (AList.update ''requestBody''
                       (OObj [(''type'', OVal (VStr ''string'')),
                              (''description'',
                               or_else (rb_description opRequestBody)
                                 (OVal (VStr (''Request body (content type: '' @ contentType
                                              @ '')''))))])
                       properties,
                     required', Some contentType)
            | None \<Rightarrow> Inr (properties, required, None)))"

definition generateInputSchemaAndDetails ::
  "store \<Rightarrow> aap_operation \<Rightarrow> parameter list option \<Rightarrow>
   error + (out \<times> parameter list \<times> string option)" where
  "generateInputSchemaAndDetails st operation pathParameters =
     (let operationParameters =
            (case op_parameters (raw operation) of Some ps \<Rightarrow> ps | None \<Rightarrow> []);
          pathParametersResolved = (case pathParameters of Some ps \<Rightarrow> ps | None \<Rightarrow> []);
          allParameters = mergeParameters operationParameters pathParametersResolved
      in case addParameters st allParameters [] [] of
           Inl e \<Rightarrow> Inl e
         | Inr (properties, required) \<Rightarrow>
             (case (case op_requestBody (raw operation) of
                      Some opRequestBody \<Rightarrow> addRequestBody st opRequestBody properties required
                    | None \<Rightarrow> Inr (properties, required, None)) of
                Inl e \<Rightarrow> Inl e
              | Inr (properties, required, requestBodyContentType) \<Rightarrow>
                  Inr (OObj ([(''type'', OVal (VStr ''object'')),
                              (''properties'', OObj properties)]
                             @ (if required \<noteq> []
                                then [(''required'', OVal (VArr (map VStr required)))]
                                else [])),
                       allParameters, requestBodyContentType)))"

section \<open>Tool extraction\<close>

datatype severity = INFO | WARN | ERR

datatype McpToolLogEntry = LogEntry (severity: severity) (msg: ustring)

text \<open>
  \<open>AAPMcpToolDefinition\<close>. The service and the size are absent from the tools that
  \<open>extractToolsFromApi\<close> returns; \<open>generateTools\<close> sets them.
\<close>

record tool =
  name :: string
  description :: string
  inputSchema :: out
  http_method :: http_method
  pathTemplate :: string
  parameters :: "parameter list"
  executionParameters :: "(string \<times> string) list"
  requestBodyContentType :: "string option"
  securityRequirements :: "security_requirement list"
  operationId :: ustring
  deprecated :: bool
  logs :: "McpToolLogEntry list"
  service :: "string option"
  tool_size :: "nat option"

definition falsy :: "string option \<Rightarrow> bool" where
  \<comment> \<open>\<open>!s\<close> for an optional string\<close>
  "falsy s = (case s of Some t \<Rightarrow> t = [] | None \<Rightarrow> True)"

definition resolveDescription :: "aap_operation \<Rightarrow> string" where
  "resolveDescription operation =
     (if x_ai_description operation \<noteq> [] then x_ai_description operation
      else if \<not> falsy (op_summary (raw operation))
        then (case op_summary (raw operation) of Some s \<Rightarrow> s | None \<Rightarrow> [])
      else if \<not> falsy (op_description (raw operation))
        then (case op_description (raw operation) of
                Some d \<Rightarrow> (case split [CHR 0x0A, CHR 0x0A] (trim d) of p # ps \<Rightarrow> p | [] \<Rightarrow> [])
              | None \<Rightarrow> [])
      else [])"

text \<open>
  The properties of the input schema that are objects without a truthy \<open>description\<close>.
  Every property of an input schema is an object the function above has made.
\<close>

definition missingDescriptions :: "out \<Rightarrow> out list" where
  "missingDescriptions schema =
     (case schema of
        OObj fs \<Rightarrow>
          (case out_get fs ''properties'' of
             OObj props \<Rightarrow>
               filter (\<lambda>p. case p of
                              OObj pfs \<Rightarrow> \<not> out_truthy (out_get pfs ''description'')
                            | OVal v \<Rightarrow> False)
                 (map snd props)
           | OVal v \<Rightarrow> [])
      | OVal v \<Rightarrow> [])"

definition resolveSecurity ::
  "security_requirement list field \<Rightarrow> security_requirement list \<Rightarrow>
   security_requirement list" where
  \<comment> \<open>\<open>operation.security === null ? globalSecurity : operation.security || globalSecurity\<close>;
      an array is truthy, the empty one too.\<close>
  "resolveSecurity security globalSecurity =
     (case security of
        Null \<Rightarrow> globalSecurity
      | Val reqs \<Rightarrow> reqs
      | Unset \<Rightarrow> globalSecurity)"

text \<open>
  The body of the loop of \<open>extractToolsFromApi\<close> for one operation, in three parts: the
  base name, the diagnostics in the order they are pushed, and the tool that is pushed.
  \<open>shouldIncludeOperationForMcp\<close> throws nothing, so the \<open>catch\<close> around it is not
  reached.
\<close>

definition baseName :: "aap_operation \<Rightarrow> http_method \<Rightarrow> string \<Rightarrow> ustring" where
  \<comment> \<open>\<open>operation.operationId || generateOperationId(method, path)\<close>\<close>
  "baseName operation method path =
     (if falsy (op_operationId (raw operation))
      then generateOperationId (method_name method) path
      else (case op_operationId (raw operation) of Some s \<Rightarrow> wide s | None \<Rightarrow> []))"

definition diagnostics ::
  "aap_operation \<Rightarrow> ustring \<Rightarrow> string \<Rightarrow> out \<Rightarrow> McpToolLogEntry list" where
  "diagnostics operation originalBaseName nameCandidate schema =
     (if falsy (op_operationId (raw operation))
      then [LogEntry WARN (wide ''no operationId key available'')] else [])
     @ (if originalBaseName \<noteq> wide nameCandidate
        then [LogEntry WARN (wide ''name was transformed from '' @ originalBaseName)] else [])
     @ (if falsy (op_description (raw operation))
        then [LogEntry WARN (wide ''no description in OpenAPI schema'')] else [])
     @ (if falsy (op_summary (raw operation))
        then [LogEntry INFO (wide ''no summary in OpenAPI schema'')] else [])
     @ (if length (x_ai_description operation) = 0
        then [LogEntry ERR (wide ''no `x-ai-description` field'')] else [])
     @ (if length (x_ai_description operation) > 300
        then [LogEntry ERR (wide ''x-ai-description is too long (>300 chars)'')] else [])
     @ (if missingDescriptions schema \<noteq> []
        then [LogEntry ERR (wide ''has parameter(s) with no `description` key'')] else [])"

definition makeTool ::
  "document \<Rightarrow> aap_operation \<Rightarrow> http_method \<Rightarrow> string \<Rightarrow> ustring \<Rightarrow> string \<Rightarrow> out \<Rightarrow>
   parameter list \<Rightarrow> string option \<Rightarrow> tool" where
  "makeTool api operation method path originalBaseName nameCandidate schema params contentType =
     \<lparr> name = nameCandidate,
       description = resolveDescription operation,
       inputSchema = schema,
       http_method = method,
       pathTemplate = path,
       parameters = params,
       executionParameters = map (\<lambda>p. (p_name p, p_in p)) params,
       requestBodyContentType = contentType,
       securityRequirements =
         resolveSecurity (op_security (raw operation))
           (case api_security api of Some reqs \<Rightarrow> reqs | None \<Rightarrow> []),
       operationId = originalBaseName,
       deprecated = aap_deprecated operation,
       logs = diagnostics operation originalBaseName nameCandidate schema,
       service = None,
       tool_size = None \<rparr>"

definition compileOperation ::
  "store \<Rightarrow> document \<Rightarrow> bool \<Rightarrow> string list \<Rightarrow> string \<Rightarrow> path_item \<Rightarrow> http_method \<Rightarrow>
   operation \<Rightarrow> error + (string list \<times> tool option)" where
  "compileOperation st api defaultInclude usedNames path pathItem method rawOperation =
     (let operation = AAPOperationObject rawOperation
      in if \<not> shouldIncludeOperationForMcp api pathItem operation defaultInclude
         then Inr (usedNames, None)
         else
           let originalBaseName = baseName operation method path
           in if originalBaseName = [] then Inr (usedNames, None)
              else
                let nameCandidate = uniqueName usedNames (sanitize originalBaseName) 1
                in case generateInputSchemaAndDetails st operation (pi_parameters pathItem) of
                     Inl e \<Rightarrow> Inl e
                   | Inr (schema, params, contentType) \<Rightarrow>
                       Inr (List.insert nameCandidate usedNames,
                            Some (makeTool api operation method path originalBaseName
                                    nameCandidate schema params contentType)))"

text \<open>
  The operations of a document in the order the two loops visit them: the paths in the
  order of \<open>Object.entries(api.paths)\<close>, and for each the methods of \<open>HttpMethods\<close> that
  the path item has.
\<close>

definition operations_of ::
  "document \<Rightarrow> (string \<times> path_item \<times> http_method \<times> operation) list" where
  "operations_of api =
     (case api_paths api of
        None \<Rightarrow> []
      | Some paths \<Rightarrow>
          concat (map (\<lambda>(path, pathItem).
                    concat (map (\<lambda>method.
                              case pi_operations pathItem method of
                                Some rawOperation \<Rightarrow> [(path, pathItem, method, rawOperation)]
                              | None \<Rightarrow> [])
                            HttpMethods))
                  paths))"

fun compileOperations ::
  "store \<Rightarrow> document \<Rightarrow> bool \<Rightarrow> (string \<times> path_item \<times> http_method \<times> operation) list \<Rightarrow>
   tool list \<Rightarrow> string list \<Rightarrow> error + tool list" where
  "compileOperations st api defaultInclude [] tools usedNames = Inr tools"
| "compileOperations st api defaultInclude ((path, pathItem, method, rawOperation) # rest)
     tools usedNames =
     (case compileOperation st api defaultInclude usedNames path pathItem method rawOperation of
        Inl e \<Rightarrow> Inl e
      | Inr (usedNames', None) \<Rightarrow>
          compileOperations st api defaultInclude rest tools usedNames'
      | Inr (usedNames', Some t) \<Rightarrow>
          compileOperations st api defaultInclude rest (tools @ [t]) usedNames')"

definition extractToolsFromApi :: "store \<Rightarrow> document \<Rightarrow> bool \<Rightarrow> error + tool list" where
  "extractToolsFromApi st api defaultInclude =
     compileOperations st api defaultInclude (operations_of api) [] []"

section \<open>Serialization\<close>

text \<open>
  \<open>JSON.stringify\<close>: a property whose value is \<open>undefined\<close> is left out of an object and
  is \<open>null\<close> in an array; an object that is on the stack of the objects being serialized
  is a cycle, and a \<open>TypeError\<close> is thrown.
\<close>

definition hex_digit :: "nat \<Rightarrow> char" where
  "hex_digit d = ''0123456789abcdef'' ! d"

definition quote_char :: "char \<Rightarrow> string" where
  "quote_char c =
     (let n = (of_char c :: nat)
      in if c = CHR 0x22 then [CHR 0x5C, CHR 0x22]
         else if c = CHR 0x5C then [CHR 0x5C, CHR 0x5C]
         else if n = 8 then [CHR 0x5C, CHR ''b'']
         else if n = 12 then [CHR 0x5C, CHR ''f'']
         else if n = 10 then [CHR 0x5C, CHR ''n'']
         else if n = 13 then [CHR 0x5C, CHR ''r'']
         else if n = 9 then [CHR 0x5C, CHR ''t'']
         else if n < 32
           then [CHR 0x5C, CHR ''u'', CHR ''0'', CHR ''0'', hex_digit (n div 16),
                 hex_digit (n mod 16)]
         else [c])"

definition quote :: "string \<Rightarrow> string" where
  "quote s = [CHR 0x22] @ concat (map quote_char s) @ [CHR 0x22]"

definition show_int :: "int \<Rightarrow> string" where
  "show_int n = (if n < 0 then ''-'' @ decimal (nat (- n)) else decimal (nat n))"

fun join :: "string \<Rightarrow> string list \<Rightarrow> string" where
  "join sep [] = []"
| "join sep [x] = x"
| "join sep (x # y # ys) = x @ sep @ join sep (y # ys)"

fun collect :: "(error + 'a) list \<Rightarrow> error + 'a list" where
  "collect [] = Inr []"
| "collect (r # rs) =
     (case r of
        Inl e \<Rightarrow> Inl e
      | Inr x \<Rightarrow> (case collect rs of Inl e \<Rightarrow> Inl e | Inr xs \<Rightarrow> Inr (x # xs)))"

definition array_text :: "string option list \<Rightarrow> string" where
  "array_text rs =
     ''['' @ join '','' (map (\<lambda>r. case r of Some t \<Rightarrow> t | None \<Rightarrow> ''null'') rs) @ '']''"

definition object_text :: "(string \<times> string option) list \<Rightarrow> string" where
  "object_text ms =
     ''{'' @ join '',''
       (concat (map (\<lambda>(k, r). case r of Some t \<Rightarrow> [quote k @ '':'' @ t] | None \<Rightarrow> []) ms))
     @ ''}''"

definition with_key :: "string \<Rightarrow> error + string option \<Rightarrow> error + (string \<times> string option)" where
  "with_key k r = (case r of Inl e \<Rightarrow> Inl e | Inr t \<Rightarrow> Inr (k, t))"

definition finish :: "('a list \<Rightarrow> string) \<Rightarrow> error + 'a list \<Rightarrow> error + string option" where
  "finish f r = (case r of Inl e \<Rightarrow> Inl e | Inr xs \<Rightarrow> Inr (Some (f xs)))"

lemma size_val_member: "x \<in> set xs \<Longrightarrow> size x < size (VArr xs)"
  by (induction xs) auto

function SerializeJSONProperty :: "store \<Rightarrow> nat list \<Rightarrow> val \<Rightarrow> error + string option" where
  "SerializeJSONProperty st stack v =
     (case v of
        VUndef \<Rightarrow> Inr None
      | VNull \<Rightarrow> Inr (Some ''null'')
      | VBool b \<Rightarrow> Inr (Some (if b then ''true'' else ''false''))
      | VNum n \<Rightarrow> Inr (Some (show_int n))
      | VStr s \<Rightarrow> Inr (Some (quote s))
      | VArr xs \<Rightarrow> finish array_text (collect (map (SerializeJSONProperty st stack) xs))
      | VObj a \<Rightarrow>
          if a \<in> set stack then Inl TypeError
          else if length st \<le> a then Inr (Some ''{}'')
          else finish object_text
                 (collect (map (\<lambda>(k, x). with_key k (SerializeJSONProperty st (a # stack) x))
                            (st ! a))))"
  by pat_completeness auto
termination
proof (relation "measures [\<lambda>(st, stack, v). card ({..<length st} - set stack),
                           \<lambda>(st, stack, v). size v]", goal_cases)
  case 1
  show ?case by simp
next
  case (2 st stack v xs x)
  then have "size x < size v" by (simp only: size_val_member)
  then show ?case by simp
next
  case (3 st stack v a)
  from 3(3) 3(2)
  have "card ({..<length st} - set (a # stack)) < card ({..<length st} - set stack)"
    by (rule unseen_decreases)
  then show ?case by simp
qed

declare SerializeJSONProperty.simps [simp del]

fun SerializeJSONOut :: "store \<Rightarrow> out \<Rightarrow> error + string option" where
  "SerializeJSONOut st (OVal v) = SerializeJSONProperty st [] v"
| "SerializeJSONOut st (OObj fs) =
     finish object_text (collect (map (\<lambda>(k, x). with_key k (SerializeJSONOut st x)) fs))"

definition JSON_stringify :: "store \<Rightarrow> out \<Rightarrow> error + string" where
  "JSON_stringify st v =
     (case SerializeJSONOut st v of
        Inl e \<Rightarrow> Inl e
      | Inr r \<Rightarrow> Inr (case r of Some t \<Rightarrow> t | None \<Rightarrow> []))"

section \<open>The aggregated catalog\<close>

text \<open>
  A service as \<open>loadOpenApiSpecs\<close> gives it, its document being the one that
  \<open>extractToolsFromApi\<close> receives (dereferenced, converted and bundled by the
  normalizer, which is a library). \<open>reformatFunc\<close> belongs to the loader and is a
  parameter here: called on a tool, it may change the tool in place, and its result is
  truthy or not. The model gives the tool after the call and whether the result is truthy.
\<close>

record spec =
  spec_service :: string
  spec_document :: document
  reformatFunc :: "tool \<Rightarrow> tool \<times> bool"

definition toUpperCase :: "string \<Rightarrow> ustring" where
  "toUpperCase s = concat (map upper_char s)"

definition allowedOperations :: "bool \<Rightarrow> string list" where
  "allowedOperations allowWriteOperations =
     (if allowWriteOperations
      then [''GET'', ''POST'', ''PUT'', ''PATCH'', ''DELETE'', ''HEAD'', ''OPTIONS'']
      else [''GET'', ''HEAD'', ''OPTIONS''])"

text \<open>The callback of \<open>tools.filter\<close>: the tool as the callback leaves it, when it is kept.\<close>

definition filterTool :: "bool \<Rightarrow> spec \<Rightarrow> tool \<Rightarrow> tool option" where
  "filterTool allowWriteOperations sp t =
     (let t1 = t\<lparr>service := Some (spec_service sp)\<rparr>
      in if toUpperCase (method_name (http_method t1))
              \<notin> set (map wide (allowedOperations allowWriteOperations))
         then None
         else (case reformatFunc sp t1 of (t2, kept) \<Rightarrow> if kept then Some t2 else None))"

definition serviceTools :: "bool \<Rightarrow> store \<Rightarrow> spec \<Rightarrow> tool list" where
  \<comment> \<open>An exception of \<open>extractToolsFromApi\<close> is caught and the service gives no tool.\<close>
  "serviceTools allowWriteOperations st sp =
     (case extractToolsFromApi st (spec_document sp) True of
        Inl e \<Rightarrow> []
      | Inr tools \<Rightarrow> concat (map (\<lambda>t. case filterTool allowWriteOperations sp t of
                                        Some t' \<Rightarrow> [t'] | None \<Rightarrow> []) tools))"

definition size_object :: "tool \<Rightarrow> out" where
  "size_object t =
     OObj [(''name'', OVal (VStr (name t))),
           (''description'', OVal (VStr (description t))),
           (''inputSchema'', inputSchema t)]"

definition withSize :: "store \<Rightarrow> tool \<Rightarrow> error + tool" where
  "withSize st t =
     (case JSON_stringify st (size_object t) of
        Inl e \<Rightarrow> Inl e
      | Inr text \<Rightarrow> Inr (t\<lparr>tool_size := Some (length text)\<rparr>))"

definition size_of :: "tool \<Rightarrow> nat" where
  "size_of t = (case tool_size t of Some n \<Rightarrow> n | None \<Rightarrow> 0)"

text \<open>
  \<open>generateTools\<close>. \<open>Array.prototype.sort\<close> is stable, as \<open>sort_key\<close> is; the comparison
  \<open>b.size - a.size\<close> orders by size, larger first.
\<close>

definition generateTools :: "bool \<Rightarrow> store \<Rightarrow> spec list \<Rightarrow> error + tool list" where
  "generateTools allowWriteOperations st openApiSpecs =
     (let rawToolList = concat (map (serviceTools allowWriteOperations st) openApiSpecs)
      in case collect (map (withSize st) rawToolList) of
           Inl e \<Rightarrow> Inl e
         | Inr toolsWithSize \<Rightarrow> Inr (sort_key (\<lambda>t. - int (size_of t)) toolsWithSize))"

text \<open>The claim's measure: the number of bytes of a text in UTF-8.\<close>

definition utf8_length :: "string \<Rightarrow> nat" where
  "utf8_length s = sum_list (map (\<lambda>c. if (of_char c :: nat) < 128 then 1 else 2) s)"

section \<open>Sessions\<close>

record session =
  token :: string
  userAgent :: string
  category :: string
  transport :: nat

type_synonym SessionData = "string \<Rightarrow> session option"

type_synonym categories = "(string \<times> string list) list"

definition extractBearerToken :: "string option \<Rightarrow> string option" where
  "extractBearerToken authHeader =
     (case authHeader of
        Some h \<Rightarrow> if h \<noteq> [] \<and> startsWith h ''Bearer '' then Some (drop 7 h) else None
      | None \<Rightarrow> None)"

definition storeSessionData ::
  "SessionData \<Rightarrow> string \<Rightarrow> string \<Rightarrow> string \<Rightarrow> string \<Rightarrow> nat \<Rightarrow> SessionData" where
  "storeSessionData sessionData sessionId tok agent cat tr =
     sessionData(sessionId \<mapsto> \<lparr> token = tok, userAgent = agent, category = cat,
                                transport = tr \<rparr>)"

definition requestCategory :: "categories \<Rightarrow> string option \<Rightarrow> string" where
  \<comment> \<open>\<open>Object.keys(allCategories).includes(req.params.category) ? req.params.category : "all"\<close>\<close>
  "requestCategory allCategories param =
     (case param of
        Some c \<Rightarrow> if c \<in> set (map fst allCategories) then c else ''all''
      | None \<Rightarrow> ''all'')"

text \<open>
  What reaches the registry. \<open>Initialize\<close> is an initialization request without a session
  identifier: the identifier the transport generates, the \<open>Authorization\<close> and
  \<open>User-Agent\<close> headers, the category of the route and the transport. \<open>Closed\<close> is
  \<open>transport.onclose\<close>, \<open>Delete\<close> the request of \<open>mcpDeleteHandler\<close>, \<open>Shutdown\<close> the
  handler of \<open>SIGINT\<close>. The identity check of \<open>validateToken\<close> is the upstream's answer,
  a parameter.
\<close>

datatype request =
    Initialize string "string option" "string option" "string option" nat
  | Closed string
  | Delete string
  | Shutdown

fun handle :: "categories \<Rightarrow> (string \<Rightarrow> bool) \<Rightarrow> SessionData \<Rightarrow> request \<Rightarrow> SessionData" where
  "handle allCategories validateToken sessionData
     (Initialize sessionId authHeader agentHeader param tr) =
     (let cat = requestCategory allCategories param
      in case extractBearerToken authHeader of
           Some tok \<Rightarrow>
             if tok \<noteq> [] then
               (if validateToken tok
                then storeSessionData sessionData sessionId tok
                       (case agentHeader of Some u \<Rightarrow> if u \<noteq> [] then u else ''unknown''
                                          | None \<Rightarrow> ''unknown'')
                       cat tr
                else sessionData)
             else sessionData
         | None \<Rightarrow> sessionData)"
| "handle allCategories validateToken sessionData (Closed sid) =
     (if sid \<noteq> [] \<and> sessionData sid \<noteq> None then sessionData(sid := None) else sessionData)"
| "handle allCategories validateToken sessionData (Delete sid) =
     (if sid = [] \<or> sessionData sid = None then sessionData else sessionData(sid := None))"
| "handle allCategories validateToken sessionData Shutdown = Map.empty"

definition registry :: "categories \<Rightarrow> (string \<Rightarrow> bool) \<Rightarrow> request list \<Rightarrow> SessionData" where
  \<comment> \<open>The registry after the requests, from the empty one the process starts with.\<close>
  "registry allCategories validateToken reqs =
     foldl (handle allCategories validateToken) Map.empty reqs"

definition filterToolsByCategory :: "categories \<Rightarrow> tool list \<Rightarrow> string \<Rightarrow> error + tool list" where
  \<comment> \<open>\<open>toolsSelection.includes\<close> throws a \<open>TypeError\<close> when the category has no entry.\<close>
  "filterToolsByCategory allCategories tools cat =
     (if cat = ''all''
      then Inr (filter (\<lambda>t. name t \<in> set (concat (map snd allCategories))) tools)
      else (case map_of allCategories cat of
              Some toolsSelection \<Rightarrow> Inr (filter (\<lambda>t. name t \<in> set toolsSelection) tools)
            | None \<Rightarrow> Inl TypeError))"

definition listTools ::
  "categories \<Rightarrow> tool list \<Rightarrow> SessionData \<Rightarrow> string option \<Rightarrow>
   error + (string \<times> string \<times> out) list" where
  "listTools allCategories allTools sessionData sessionId =
     (case sessionId of
        None \<Rightarrow> Inl InvalidSessionId
      | Some sid \<Rightarrow>
          if sid = [] then Inl InvalidSessionId
          else (case sessionData sid of
                  None \<Rightarrow> Inl InvalidSessionId
                | Some s \<Rightarrow>
                    (case filterToolsByCategory allCategories allTools (category s) of
                       Inl e \<Rightarrow> Inl e
                     | Inr filteredTools \<Rightarrow>
                         Inr (map (\<lambda>t. (name t, description t, inputSchema t))
                                filteredTools))))"

text \<open>
  The handler of a call, up to the tool it goes on to execute: the exchange with the
  upstream service is outside the model.
\<close>

definition callTool ::
  "tool list \<Rightarrow> SessionData \<Rightarrow> string option \<Rightarrow> string \<Rightarrow> error + tool" where
  "callTool allTools sessionData sessionId nm =
     (case sessionId of
        None \<Rightarrow> Inl InvalidSessionId
      | Some sid \<Rightarrow>
          if sid = [] then Inl InvalidSessionId
          else (case sessionData sid of
                  None \<Rightarrow> Inl InvalidSessionId
                | Some s \<Rightarrow>
                    (case find (\<lambda>t. name t = nm) allTools of
                       None \<Rightarrow> Inl (UnknownTool nm)
                     | Some t \<Rightarrow> Inr t)))"

section \<open>Readings of the claims\<close>

text \<open>The text of an optional string: the empty string when it is absent.\<close>

definition text_of :: "string option \<Rightarrow> string" where
  "text_of s = (case s of Some t \<Rightarrow> t | None \<Rightarrow> [])"

text \<open>The first paragraph of a text: what comes before its first blank line.\<close>

fun before_blank_line :: "string \<Rightarrow> string" where
  "before_blank_line [] = []"
| "before_blank_line (c # cs) =
     (if startsWith (c # cs) [CHR 0x0A, CHR 0x0A] then [] else c # before_blank_line cs)"














text \<open>The alphabet of a name, and a code unit as sanitizing leaves it.\<close>

definition alphabet :: string where
  "alphabet = ''abcdefghijklmnopqrstuvwxyzABCDEFGHIJKLMNOPQRSTUVWXYZ0123456789_-''"

definition underscored :: "code_unit \<Rightarrow> char" where
  "underscored u =
     (case u of
        Latin1 c \<Rightarrow> if c \<in> set alphabet then c else CHR ''_''
      | _ \<Rightarrow> CHR ''_'')"

text \<open>
  A position in a schema: the steps from a schema to one below it, each step going to a
  property or to the items. \<open>child\<close> is the schema object a step leads to from the node at
  an address, when the node is an object schema with that property or an array schema
  with items. \<open>walk\<close> follows steps from a node that is translated in full (one in the
  store, with no \<open>$ref\<close> key and not on the path) and gives the path and the node it
  arrives at; \<open>out_at\<close> is the part of a result at a position.
\<close>

datatype step = Property string | Items

definition child :: "store \<Rightarrow> nat \<Rightarrow> step \<Rightarrow> nat option" where
  "child st a s =
     (let jsonSchema = convert_keywords (st ! a)
      in case s of
           Property key \<Rightarrow>
             if get jsonSchema ''type'' = VStr ''object'' \<and> truthy (get jsonSchema ''properties'')
             then (case map_of (entries st (get jsonSchema ''properties'')) key of
                     Some (VObj b) \<Rightarrow> Some b
                   | _ \<Rightarrow> None)
             else None
         | Items \<Rightarrow>
             if get jsonSchema ''type'' = VStr ''array''
             then (case get jsonSchema ''items'' of VObj b \<Rightarrow> Some b | _ \<Rightarrow> None)
             else None)"

fun walk :: "store \<Rightarrow> nat list \<Rightarrow> nat \<Rightarrow> step list \<Rightarrow> (nat list \<times> nat) option" where
  "walk st seen a [] = Some (seen, a)"
| "walk st seen a (s # ss) =
     (if length st \<le> a \<or> has_key ''$ref'' (st ! a) \<or> a \<in> set seen then None
      else case child st a s of
             None \<Rightarrow> None
           | Some b \<Rightarrow> walk st (a # seen) b ss)"

fun out_at :: "out \<Rightarrow> step list \<Rightarrow> out option" where
  "out_at r [] = Some r"
| "out_at r (Property key # ss) =
     (case r of
        OObj fs \<Rightarrow>
          (case map_of fs ''properties'' of
             Some (OObj ps) \<Rightarrow> (case map_of ps key of Some r' \<Rightarrow> out_at r' ss | None \<Rightarrow> None)
           | _ \<Rightarrow> None)
      | OVal v \<Rightarrow> None)"
| "out_at r (Items # ss) =
     (case r of
        OObj fs \<Rightarrow> (case map_of fs ''items'' of Some r' \<Rightarrow> out_at r' ss | None \<Rightarrow> None)
      | OVal v \<Rightarrow> None)"

text \<open>
  The key of a parameter in the merged list, its name and location, and the entry a list
  of parameters has for a key (the first one, if it has several).
\<close>

definition param_key :: "parameter \<Rightarrow> string \<times> string" where
  "param_key p = (p_name p, p_in p)"

definition by_key :: "parameter list \<Rightarrow> (string \<times> string) \<Rightarrow> parameter option" where
  "by_key ps = map_of (map (\<lambda>p. (param_key p, p)) ps)"

text \<open>The tool names a category gives access to; \<open>all\<close> stands for every category.\<close>

definition category_tool_names :: "categories \<Rightarrow> string \<Rightarrow> string set" where
  "category_tool_names allCategories cat =
     (if cat = ''all'' then set (concat (map snd allCategories))
      else (case map_of allCategories cat of Some names \<Rightarrow> set names | None \<Rightarrow> {}))"

text \<open>
  The counters the loop of \<open>uniqueName\<close> appends, from \<open>c\<close> on: \<open>_c\<close>, then \<open>_c_c+1\<close>,
  and so on, each one after the ones before it. A tool's name is \<open>suffixed\<close> in a catalog
  when it is its sanitized base name with such counters from 1, every shorter candidate
  being a name of the catalog.
\<close>

definition counter_suffix :: "nat \<Rightarrow> nat \<Rightarrow> string" where
  "counter_suffix c k = concat (map (\<lambda>i. ''_'' @ decimal i) [c..<c + k])"

definition suffixed :: "tool list \<Rightarrow> tool \<Rightarrow> bool" where
  "suffixed catalog t =
     (operationId t \<noteq> [] \<and>
      (\<exists>k. name t = sanitize (operationId t) @ counter_suffix 1 k
           \<and> (\<forall>j<k. sanitize (operationId t) @ counter_suffix 1 j \<in> set (map name catalog))))"

text \<open>A code unit below 128 takes one byte in UTF-8, one from 128 to 255 takes two.\<close>

definition is_ascii :: "char \<Rightarrow> bool" where
  "is_ascii c = ((of_char c :: nat) < 128)"

section \<open>Example documents\<close>

definition plain_operation :: operation where
  "plain_operation =
     \<lparr> op_operationId = None, op_summary = None, op_description = None,
       op_x_ai_description = None, op_deprecated = None, op_security = Unset,
       op_parameters = None, op_requestBody = None, op_x_mcp = VUndef \<rparr>"

definition open_operation :: operation where
  "open_operation = plain_operation\<lparr> op_operationId := Some ''open'', op_security := Val [] \<rparr>"

definition security_doc :: document where
  "security_doc =
     \<lparr> api_security = Some [[(''bearerAuth'', [])]],
       api_paths = Some [(''/open'',
         \<lparr> pi_operations = (\<lambda>m. None)(GET := Some open_operation,
              POST := Some (plain_operation\<lparr> op_security := Null \<rparr>)),
           pi_parameters = None, pi_x_mcp = VUndef \<rparr>)],
       api_x_mcp = VUndef \<rparr>"

definition security_tools :: "tool list" where
  "security_tools = projr (extractToolsFromApi [] security_doc True)"

definition ai_doc :: document where
  "ai_doc =
     \<lparr> api_security = None,
       api_paths = Some [(''/widgets/{id}'',
         \<lparr> pi_operations = (\<lambda>m. None)(
              GET := Some (plain_operation\<lparr> op_summary := Some ''Get widget'' \<rparr>),
              PUT := Some (plain_operation\<lparr> op_operationId := Some ''putWidget'',
                       op_x_ai_description := Some ''Replace a widget'' \<rparr>)),
           pi_parameters = None, pi_x_mcp = VUndef \<rparr>)],
       api_x_mcp = VUndef \<rparr>"

definition ai_tools :: "tool list" where
  "ai_tools = projr (extractToolsFromApi [] ai_doc True)"

definition noid_doc :: document where
  "noid_doc =
     \<lparr> api_security = None,
       api_paths = Some [(''/Job_Templates/{id}/WORK-flows/{Run.ID}'',
         \<lparr> pi_operations = (\<lambda>m. None)(GET := Some plain_operation),
           pi_parameters = None, pi_x_mcp = VUndef \<rparr>)],
       api_x_mcp = VUndef \<rparr>"

definition noid_tools :: "tool list" where
  "noid_tools = projr (extractToolsFromApi [] noid_doc True)"

definition operation_level_id :: parameter where
  "operation_level_id =
     \<lparr> p_name = ''id'', p_in = ''query'', p_description = Some ''operation-level'',
       p_required = True, p_schema = VUndef \<rparr>"

definition path_level_id :: parameter where
  "path_level_id =
     \<lparr> p_name = ''id'', p_in = ''query'', p_description = Some ''path-level'',
       p_required = False, p_schema = VUndef \<rparr>"

definition merge_doc :: document where
  "merge_doc =
     \<lparr> api_security = None,
       api_paths = Some [(''/items'',
         \<lparr> pi_operations = (\<lambda>m. None)(GET := Some (plain_operation
              \<lparr> op_operationId := Some ''listItems'',
                op_parameters := Some [operation_level_id] \<rparr>)),
           pi_parameters = Some [path_level_id], pi_x_mcp = VUndef \<rparr>)],
       api_x_mcp = VUndef \<rparr>"

definition example_categories :: categories where
  "example_categories = [(''readonly'', [''getWidgetsById''])]"

definition example_validateToken :: "string \<Rightarrow> bool" where
  "example_validateToken tok = (tok = ''good'')"

definition example_requests :: "request list" where
  "example_requests =
     [Initialize ''s1'' (Some ''Bearer good'') None (Some ''readonly'') 0,
      Initialize ''s2'' (Some ''Bearer good'') (Some ''curl'') (Some ''unknown-category'') 1,
      Initialize ''s3'' (Some ''Bearer bad'') None (Some ''readonly'') 2,
      Initialize ''s4'' (Some ''Bearer good'') None None 3,
      Delete ''s4'']"

definition example_registry :: SessionData where
  "example_registry = registry example_categories example_validateToken example_requests"

definition cyclic_store :: store where
  "cyclic_store =
     [[(''type'', VStr ''object''), (''title'', VStr ''Node''),
       (''properties'', VObj 1)],
      [(''self'', VObj 0), (''children'', VObj 2), (''ref'', VObj 3),
       (''name'', VObj 4), (''label'', VObj 4)],
      [(''type'', VStr ''array''), (''items'', VObj 0)],
      [(''$ref'', VStr ''https://example.com/schema.json'')],
      [(''type'', VStr ''string'')]]"

definition keep_tool :: "tool \<Rightarrow> tool \<times> bool" where
  "keep_tool t = (t, True)"

definition service_a :: spec where
  "service_a = \<lparr> spec_service = ''a'', spec_document = merge_doc, reformatFunc = keep_tool \<rparr>"

definition service_b :: spec where
  "service_b = \<lparr> spec_service = ''b'', spec_document = merge_doc, reformatFunc = keep_tool \<rparr>"

definition two_services_catalog :: "tool list" where
  "two_services_catalog = projr (generateTools True [] [service_a, service_b])"

definition twice_doc :: document where
  "twice_doc =
     \<lparr> api_security = None,
       api_paths = Some [(''/items'',
         \<lparr> pi_operations = (\<lambda>m. None)(
              GET := Some (plain_operation\<lparr> op_operationId := Some ''items.list'' \<rparr>),
              PUT := Some (plain_operation\<lparr> op_operationId := Some ''items_list'' \<rparr>),
              POST := Some (plain_operation\<lparr> op_operationId := Some ''items list'' \<rparr>)),
           pi_parameters = None, pi_x_mcp = VUndef \<rparr>)],
       api_x_mcp = VUndef \<rparr>"

definition twice_tools :: "tool list" where
  "twice_tools = projr (extractToolsFromApi [] twice_doc True)"

definition latin1_doc :: document where
  "latin1_doc =
     \<lparr> api_security = None,
       api_paths = Some [(''/cafe'',
         \<lparr> pi_operations = (\<lambda>m. None)(
              GET := Some (plain_operation\<lparr> op_operationId := Some ''cafe'',
                       op_summary := Some [CHR 0xE9] \<rparr>)),
           pi_parameters = None, pi_x_mcp = VUndef \<rparr>)],
       api_x_mcp = VUndef \<rparr>"

definition latin1_service :: spec where
  "latin1_service =
     \<lparr> spec_service = ''cafe'', spec_document = latin1_doc, reformatFunc = keep_tool \<rparr>"

definition latin1_catalog :: "tool list" where
  "latin1_catalog = projr (generateTools True [] [latin1_service])"

section \<open>Inclusion flags: the precedence\<close>

text \<open>
  C3. \<open>shouldIncludeOperationForMcp\<close> returns the first determinate value among the
  operation's, the path item's and the root's \<open>x-mcp\<close>, in that order, and
  \<open>defaultInclude\<close> when none is determinate. A value is determinate exactly when it is
  a boolean, or a string whose trimmed, lower-cased form is one of true, 1, yes, on
  (giving true) or false, 0, no, off (giving false); any other value gives no result and
  the next level is consulted.
\<close>

theorem shouldInclude_precedence:
  "shouldIncludeOperationForMcp api pathItem operation defaultInclude =
     first_determinate [op_x_mcp (raw operation), pi_x_mcp pathItem, api_x_mcp api]
       defaultInclude
   \<and> (normalizeBoolean v = Some True \<longleftrightarrow>
        v = VBool True \<or>
        (\<exists>s. v = VStr s \<and> toLowerCase (trim s) \<in> {''true'', ''1'', ''yes'', ''on''}))
   \<and> (normalizeBoolean v = Some False \<longleftrightarrow>
        v = VBool False \<or>
        (\<exists>s. v = VStr s \<and> toLowerCase (trim s) \<in> {''false'', ''0'', ''no'', ''off''}))"
proof -
  have 1: "shouldIncludeOperationForMcp api pathItem operation defaultInclude =
     first_determinate [op_x_mcp (raw operation), pi_x_mcp pathItem, api_x_mcp api]
       defaultInclude"
    by (auto simp: shouldIncludeOperationForMcp_def first_determinate_def
        List.map_filter_simps Let_def split: option.splits)
  have 2: "normalizeBoolean v = Some True \<longleftrightarrow>
        v = VBool True \<or>
        (\<exists>s. v = VStr s \<and> toLowerCase (trim s) \<in> {''true'', ''1'', ''yes'', ''on''})"
    by (cases v) (auto simp: normalizeBoolean_def Let_def)
  have 3: "normalizeBoolean v = Some False \<longleftrightarrow>
        v = VBool False \<or>
        (\<exists>s. v = VStr s \<and> toLowerCase (trim s) \<in> {''false'', ''0'', ''no'', ''off''})"
    by (cases v) (auto simp: normalizeBoolean_def Let_def)
  from 1 2 3 show ?thesis by blast
qed

theorem shouldInclude_precedence_witness:
  "shouldIncludeOperationForMcp
     \<lparr> api_security = None, api_paths = None, api_x_mcp = VBool False \<rparr>
     \<lparr> pi_operations = (\<lambda>m. None), pi_parameters = None, pi_x_mcp = VStr '' YES '' \<rparr>
     (AAPOperationObject
        \<lparr> op_operationId = None, op_summary = None, op_description = None,
          op_x_ai_description = None, op_deprecated = None, op_security = Unset,
          op_parameters = None, op_requestBody = None, op_x_mcp = VStr ''maybe'' \<rparr>)
     False = True
   \<and> normalizeBoolean (VStr '' YES '') = Some True"
proof -
  have ev: "first_determinate
      [op_x_mcp (raw (AAPOperationObject
         \<lparr> op_operationId = None, op_summary = None, op_description = None,
           op_x_ai_description = None, op_deprecated = None, op_security = Unset,
           op_parameters = None, op_requestBody = None, op_x_mcp = VStr ''maybe'' \<rparr>)),
       pi_x_mcp \<lparr> pi_operations = (\<lambda>m. None), pi_parameters = None,
         pi_x_mcp = VStr '' YES '' \<rparr>,
       api_x_mcp \<lparr> api_security = None, api_paths = None, api_x_mcp = VBool False \<rparr>]
      False = True"
    by code_simp
  have tr: "toLowerCase (trim '' YES '') = ''yes''"
    by code_simp
  from shouldInclude_precedence
    [of "\<lparr> api_security = None, api_paths = None, api_x_mcp = VBool False \<rparr>"
        "\<lparr> pi_operations = (\<lambda>m. None), pi_parameters = None, pi_x_mcp = VStr '' YES '' \<rparr>"
        "AAPOperationObject
           \<lparr> op_operationId = None, op_summary = None, op_description = None,
             op_x_ai_description = None, op_deprecated = None, op_security = Unset,
             op_parameters = None, op_requestBody = None, op_x_mcp = VStr ''maybe'' \<rparr>"
        False "VStr '' YES ''"] ev tr
  show ?thesis by simp
qed

section \<open>Every tool comes from an operation\<close>

lemma compileOperations_origin:
  "compileOperations st api d ops tools used = Inr result \<Longrightarrow> t \<in> set result \<Longrightarrow>
   t \<in> set tools \<or>
   (\<exists>path pathItem meth rawOperation used0 used1.
      (path, pathItem, meth, rawOperation) \<in> set ops \<and>
      compileOperation st api d used0 path pathItem meth rawOperation = Inr (used1, Some t))"
proof (induction ops arbitrary: tools used)
  case Nil
  then show ?case by simp
next
  case (Cons x ops)
  obtain path pathItem meth rawOperation where x: "x = (path, pathItem, meth, rawOperation)"
    by (cases x) auto
  show ?case
  proof (cases "compileOperation st api d used path pathItem meth rawOperation")
    case (Inl e)
    with Cons.prems x show ?thesis by simp
  next
    case (Inr r)
    obtain used' ot where r: "r = (used', ot)" by (cases r) auto
    show ?thesis
    proof (cases ot)
      case None
      with Cons.prems x Inr r
      have "compileOperations st api d ops tools used' = Inr result" by simp
      from Cons.IH[OF this Cons.prems(2)] show ?thesis by (metis list.set_intros(2))
    next
      case (Some t')
      with Cons.prems x Inr r
      have "compileOperations st api d ops (tools @ [t']) used' = Inr result" by simp
      from Cons.IH[OF this Cons.prems(2)]
      consider "t \<in> set tools" | "t = t'"
        | "(\<exists>path pathItem meth rawOperation used0 used1.
            (path, pathItem, meth, rawOperation) \<in> set ops \<and>
            compileOperation st api d used0 path pathItem meth rawOperation
              = Inr (used1, Some t))"
        by (simp del: ex_simps) blast
      then show ?thesis
      proof cases
        case 1
        then show ?thesis by simp
      next
        case 2
        with x Inr r Some show ?thesis by (metis list.set_intros(1))
      next
        case 3
        then show ?thesis by (metis list.set_intros(2))
      qed
    qed
  qed
qed

lemma extractToolsFromApi_origin:
  assumes "extractToolsFromApi st api d = Inr tools" "t \<in> set tools"
  shows "\<exists>path pathItem meth rawOperation used0 used1.
      (path, pathItem, meth, rawOperation) \<in> set (operations_of api) \<and>
      compileOperation st api d used0 path pathItem meth rawOperation = Inr (used1, Some t)"
  using compileOperations_origin[OF assms(1)[unfolded extractToolsFromApi_def] assms(2)]
  by simp

lemma compileOperation_tool:
  assumes "compileOperation st api d used path pathItem meth rawOperation = Inr (used1, Some t)"
  shows "\<exists>schema params contentType.
           generateInputSchemaAndDetails st (AAPOperationObject rawOperation)
             (pi_parameters pathItem) = Inr (schema, params, contentType) \<and>
           baseName (AAPOperationObject rawOperation) meth path \<noteq> [] \<and>
           used1 = List.insert (name t) used \<and>
           t = makeTool api (AAPOperationObject rawOperation) meth path
                 (baseName (AAPOperationObject rawOperation) meth path)
                 (uniqueName used
                    (sanitize (baseName (AAPOperationObject rawOperation) meth path)) 1)
                 schema params contentType"
proof -
  let ?op = "AAPOperationObject rawOperation"
  let ?base = "baseName ?op meth path"
  from assms have inc: "shouldIncludeOperationForMcp api pathItem ?op d"
    by (simp add: compileOperation_def Let_def split: if_splits)
  from assms inc have base: "?base \<noteq> []"
    by (simp add: compileOperation_def Let_def split: if_splits)
  from assms inc base obtain schema params contentType where
    g: "generateInputSchemaAndDetails st ?op (pi_parameters pathItem)
          = Inr (schema, params, contentType)"
    by (simp add: compileOperation_def Let_def split: sum.splits prod.splits)
  from assms inc base g have
    "used1 = List.insert (uniqueName used (sanitize ?base) 1) used"
    "t = makeTool api ?op meth path ?base (uniqueName used (sanitize ?base) 1)
           schema params contentType"
    by (simp_all add: compileOperation_def Let_def)
  moreover from this have "name t = uniqueName used (sanitize ?base) 1"
    by (simp add: makeTool_def)
  ultimately show ?thesis using g base by simp
qed

section \<open>Security requirements\<close>

text \<open>
  C5, as the code has it. For every compiled tool, \<open>securityRequirements\<close> is the
  document's global security list (the empty list when the document has none) when the
  operation's \<open>security\<close> is unset or null, and the operation's own list whenever that
  list is present, the empty list included.
\<close>

theorem securityRequirements_resolution:
  assumes "extractToolsFromApi st api d = Inr tools" and "t \<in> set tools"
  shows "\<exists>path pathItem meth rawOperation.
      (path, pathItem, meth, rawOperation) \<in> set (operations_of api) \<and>
      pathTemplate t = path \<and> http_method t = meth \<and>
      securityRequirements t =
        (case op_security rawOperation of
           Val reqs \<Rightarrow> reqs
         | Null \<Rightarrow> (case api_security api of Some reqs \<Rightarrow> reqs | None \<Rightarrow> [])
         | Unset \<Rightarrow> (case api_security api of Some reqs \<Rightarrow> reqs | None \<Rightarrow> []))"
proof -
  from extractToolsFromApi_origin[OF assms] obtain path pathItem meth rawOperation used0 used1
    where m: "(path, pathItem, meth, rawOperation) \<in> set (operations_of api)"
      and c: "compileOperation st api d used0 path pathItem meth rawOperation
                = Inr (used1, Some t)"
    by blast
  from compileOperation_tool[OF c] obtain schema params contentType where
    t: "t = makeTool api (AAPOperationObject rawOperation) meth path
                 (baseName (AAPOperationObject rawOperation) meth path)
                 (uniqueName used0
                    (sanitize (baseName (AAPOperationObject rawOperation) meth path)) 1)
                 schema params contentType"
    by blast
  have "pathTemplate t = path" "http_method t = meth"
    "securityRequirements t =
        (case op_security rawOperation of
           Val reqs \<Rightarrow> reqs
         | Null \<Rightarrow> (case api_security api of Some reqs \<Rightarrow> reqs | None \<Rightarrow> [])
         | Unset \<Rightarrow> (case api_security api of Some reqs \<Rightarrow> reqs | None \<Rightarrow> []))"
    by (simp_all add: t makeTool_def resolveSecurity_def AAPOperationObject_def
        split: field.splits)
  with m show ?thesis by blast
qed

theorem securityRequirements_resolution_witness:
  "\<exists>path pathItem meth rawOperation.
      (path, pathItem, meth, rawOperation) \<in> set (operations_of security_doc) \<and>
      pathTemplate (hd security_tools) = path \<and> http_method (hd security_tools) = meth \<and>
      securityRequirements (hd security_tools) =
        (case op_security rawOperation of
           Val reqs \<Rightarrow> reqs
         | Null \<Rightarrow> (case api_security security_doc of Some reqs \<Rightarrow> reqs | None \<Rightarrow> [])
         | Unset \<Rightarrow> (case api_security security_doc of Some reqs \<Rightarrow> reqs | None \<Rightarrow> []))"
proof -
  have "\<not> isl (extractToolsFromApi [] security_doc True)"
    by code_simp
  then have e: "extractToolsFromApi [] security_doc True = Inr security_tools"
    by (simp add: security_tools_def)
  have "length security_tools = 2"
    by code_simp
  then have "security_tools \<noteq> []" by auto
  then have m: "hd security_tools \<in> set security_tools" by simp
  from securityRequirements_resolution[OF e m] show ?thesis .
qed

text \<open>
  C5 as stated fails: an operation that declares \<open>security: []\<close> in a document whose
  global security is not empty gets the empty list, not the global one.
\<close>

theorem empty_security_counterexample:
  "op_security open_operation = Val []
   \<and> api_security security_doc = Some [[(''bearerAuth'', [])]]
   \<and> map_sum id (map name) (extractToolsFromApi [] security_doc True)
       = Inr [''open'', ''postOpen'']
   \<and> map_sum id (map securityRequirements) (extractToolsFromApi [] security_doc True)
       = Inr [[], [[(''bearerAuth'', [])]]]"
  by code_simp

section \<open>Diagnostics and the resolved description\<close>

lemma split_nonempty: "split sep s \<noteq> []"
  by (induction sep s rule: split.induct) (auto split: list.splits)

lemma split_first: "split sep s = p # ps \<Longrightarrow> sep = [CHR 0x0A, CHR 0x0A] \<Longrightarrow> p = before_blank_line s"
proof (induction s arbitrary: p ps)
  case Nil
  then show ?case by simp
next
  case (Cons c cs)
  show ?case
  proof (cases "startsWith (c # cs) sep")
    case True
    with Cons.prems show ?thesis by simp
  next
    case False
    obtain q qs where q: "split sep cs = q # qs"
      using split_nonempty[of sep cs] by (cases "split sep cs") auto
    with False Cons.prems have "p = c # q" by simp
    moreover from Cons.IH[OF q Cons.prems(2)] have "q = before_blank_line cs" .
    ultimately show ?thesis using False Cons.prems(2) by simp
  qed
qed

lemma resolveDescription_eq:
  "resolveDescription (AAPOperationObject rawOperation) =
     (if text_of (op_x_ai_description rawOperation) \<noteq> []
        then text_of (op_x_ai_description rawOperation)
      else if text_of (op_summary rawOperation) \<noteq> [] then text_of (op_summary rawOperation)
      else if text_of (op_description rawOperation) \<noteq> []
        then before_blank_line (trim (text_of (op_description rawOperation)))
      else [])"
proof -
  have fp: "(case split [CHR 0x0A, CHR 0x0A] (trim d) of p # ps \<Rightarrow> p | [] \<Rightarrow> [])
            = before_blank_line (trim d)" for d
    using split_first[of "[CHR 0x0A, CHR 0x0A]" "trim d"] split_nonempty[of "[CHR 0x0A, CHR 0x0A]" "trim d"]
    by (cases "split [CHR 0x0A, CHR 0x0A] (trim d)") auto
  show ?thesis
    by (simp add: resolveDescription_def AAPOperationObject_def text_of_def falsy_def fp
        split: option.splits)
qed

lemma count_diagnostics:
  "count_list (diagnostics operation b n s)
      (LogEntry ERR (wide ''x-ai-description is too long (>300 chars)''))
     = (if 300 < length (x_ai_description operation) then 1 else 0)"
  "count_list (diagnostics operation b n s) (LogEntry ERR (wide ''no `x-ai-description` field''))
     = (if x_ai_description operation = [] then 1 else 0)"
  by (simp_all add: diagnostics_def)

text \<open>
  C7. For every compiled tool: the diagnostic for an AI-facing description that is too
  long is there once when the description has more than 300 characters and not at all
  otherwise (so not at 300, and once at 301); the diagnostic for a missing AI-facing
  description is there once when the description is empty and not at all otherwise; and
  the tool's description is the AI-facing description when that is not empty, else the
  summary when that is not empty, else the first paragraph of the trimmed description
  (what precedes its first blank line) when the description is not empty, else the empty
  string.
\<close>

theorem ai_description_diagnostics:
  assumes "extractToolsFromApi st api d = Inr tools" and "t \<in> set tools"
  shows "\<exists>path pathItem meth rawOperation.
      (path, pathItem, meth, rawOperation) \<in> set (operations_of api) \<and>
      pathTemplate t = path \<and> http_method t = meth \<and>
      count_list (logs t) (LogEntry ERR (wide ''x-ai-description is too long (>300 chars)''))
        = (if 300 < length (text_of (op_x_ai_description rawOperation)) then 1 else 0) \<and>
      count_list (logs t) (LogEntry ERR (wide ''no `x-ai-description` field''))
        = (if text_of (op_x_ai_description rawOperation) = [] then 1 else 0) \<and>
      description t =
        (if text_of (op_x_ai_description rawOperation) \<noteq> []
           then text_of (op_x_ai_description rawOperation)
         else if text_of (op_summary rawOperation) \<noteq> [] then text_of (op_summary rawOperation)
         else if text_of (op_description rawOperation) \<noteq> []
           then before_blank_line (trim (text_of (op_description rawOperation)))
         else [])"
proof -
  from extractToolsFromApi_origin[OF assms] obtain path pathItem meth rawOperation used0 used1
    where m: "(path, pathItem, meth, rawOperation) \<in> set (operations_of api)"
      and c: "compileOperation st api d used0 path pathItem meth rawOperation
                = Inr (used1, Some t)"
    by blast
  let ?op = "AAPOperationObject rawOperation"
  from compileOperation_tool[OF c] obtain schema params contentType where
    t: "t = makeTool api ?op meth path (baseName ?op meth path)
                 (uniqueName used0 (sanitize (baseName ?op meth path)) 1)
                 schema params contentType"
    by blast
  have ai: "x_ai_description ?op = text_of (op_x_ai_description rawOperation)"
    by (simp add: AAPOperationObject_def text_of_def)
  have f1: "pathTemplate t = path" and f2: "http_method t = meth"
    by (simp_all add: t makeTool_def)
  have f3: "count_list (logs t) (LogEntry ERR (wide ''x-ai-description is too long (>300 chars)''))
        = (if 300 < length (text_of (op_x_ai_description rawOperation)) then 1 else 0)"
    unfolding t makeTool_def using count_diagnostics(1)[of ?op] ai by simp
  have f4: "count_list (logs t) (LogEntry ERR (wide ''no `x-ai-description` field''))
        = (if text_of (op_x_ai_description rawOperation) = [] then 1 else 0)"
    unfolding t makeTool_def using count_diagnostics(2)[of ?op] ai by simp
  have f5: "description t =
        (if text_of (op_x_ai_description rawOperation) \<noteq> []
           then text_of (op_x_ai_description rawOperation)
         else if text_of (op_summary rawOperation) \<noteq> [] then text_of (op_summary rawOperation)
         else if text_of (op_description rawOperation) \<noteq> []
           then before_blank_line (trim (text_of (op_description rawOperation)))
         else [])"
    unfolding resolveDescription_eq[symmetric] by (simp add: t makeTool_def)
  from m f1 f2 f3 f4 f5 show ?thesis by blast
qed

theorem ai_description_diagnostics_witness:
  "\<exists>path pathItem meth rawOperation.
      (path, pathItem, meth, rawOperation) \<in> set (operations_of ai_doc) \<and>
      pathTemplate (last ai_tools) = path \<and> http_method (last ai_tools) = meth \<and>
      count_list (logs (last ai_tools))
          (LogEntry ERR (wide ''x-ai-description is too long (>300 chars)''))
        = (if 300 < length (text_of (op_x_ai_description rawOperation)) then 1 else 0) \<and>
      count_list (logs (last ai_tools)) (LogEntry ERR (wide ''no `x-ai-description` field''))
        = (if text_of (op_x_ai_description rawOperation) = [] then 1 else 0) \<and>
      description (last ai_tools) =
        (if text_of (op_x_ai_description rawOperation) \<noteq> []
           then text_of (op_x_ai_description rawOperation)
         else if text_of (op_summary rawOperation) \<noteq> [] then text_of (op_summary rawOperation)
         else if text_of (op_description rawOperation) \<noteq> []
           then before_blank_line (trim (text_of (op_description rawOperation)))
         else [])"
proof -
  have "\<not> isl (extractToolsFromApi [] ai_doc True)"
    by code_simp
  then have e: "extractToolsFromApi [] ai_doc True = Inr ai_tools"
    by (simp add: ai_tools_def)
  have "length ai_tools = 2"
    by code_simp
  then have "ai_tools \<noteq> []" by auto
  then have m: "last ai_tools \<in> set ai_tools" by simp
  from ai_description_diagnostics[OF e m] show ?thesis .
qed

text \<open>The boundary: 300 characters give no diagnostic for the length, 301 give one.\<close>

lemma ai_description_boundary:
  "count_list (diagnostics (AAPOperationObject
       (plain_operation\<lparr> op_x_ai_description := Some (replicate 300 c) \<rparr>)) b n s)
     (LogEntry ERR (wide ''x-ai-description is too long (>300 chars)'')) = 0"
  "count_list (diagnostics (AAPOperationObject
       (plain_operation\<lparr> op_x_ai_description := Some (replicate 301 c) \<rparr>)) b n s)
     (LogEntry ERR (wide ''x-ai-description is too long (>300 chars)'')) = 1"
  unfolding count_diagnostics
  by (simp_all add: AAPOperationObject_def plain_operation_def)

section \<open>Generated names\<close>

text \<open>
  The title case of the code, \<open>titleCase\<close>, is the title case of the claim on every plain
  text, and on the parameter of a plain name it is the title case of the name.
\<close>

lemma char_eq: "(c = d) = ((of_char c :: nat) = of_char d)"
  by simp



























text \<open>Sanitizing: a code unit of the alphabet stays, any other becomes an underscore.\<close>

lemma allowed_char_alphabet: "allowed_char c = (c \<in> set alphabet)"
proof -
  have "((97 \<le> n \<and> n \<le> 122) \<or> (65 \<le> n \<and> n \<le> 90) \<or> (48 \<le> n \<and> n \<le> 57)
         \<or> n = 95 \<or> n = 45)
      = (n \<in> set (map of_char alphabet))" for n :: nat
    unfolding alphabet_def by simp presburger
  from this[of "of_char c"] have "allowed_char c = ((of_char c :: nat) \<in> of_char ` set alphabet)"
    by (simp add: allowed_char_def Let_def char_eq[of _ "CHR ''_''"] char_eq[of _ "CHR ''-''"])
  also have "\<dots> = (c \<in> set alphabet)"
    by (rule inj_image_mem_iff) (simp add: inj_on_def)
  finally show ?thesis .
qed

lemma sanitize_eq: "sanitize s = map underscored s"
proof -
  have "(case (if u = Latin1 CHR ''.'' then Latin1 CHR ''_'' else u) of
           Latin1 c \<Rightarrow> if allowed_char c then c else CHR ''_''
         | _ \<Rightarrow> CHR ''_'') = underscored u" for u
    by (cases u) (simp_all add: underscored_def allowed_char_alphabet alphabet_def)
  then show ?thesis by (simp add: sanitize_def)
qed

lemma sanitize_allowed: "list_all allowed_char (sanitize s)"
proof -
  have "allowed_char (underscored u)" for u
    by (cases u) (simp_all add: underscored_def allowed_char_alphabet, simp_all add: alphabet_def)
  then show ?thesis by (simp add: sanitize_eq list_all_iff)
qed



text \<open>
  Outside the plain texts the title case of the code is what its replacements make of the
  text: a separator takes the character after it, a separator too; one at the end stays;
  a brace at either end of a segment goes; the micro sign becomes the Greek capital mu.
\<close>

lemma titleCase_examples:
  "titleCase ''a--b'' = wide ''A-b''"
  "titleCase ''a-'' = wide ''A-''"
  "titleCase ''{x'' = wide ''X''"
  "titleCase [CHR 0xB5, CHR ''m''] = [Capital_Mu, Latin1 CHR ''m'']"
  "generateOperationId ''get'' ''/users/{userId}/posts'' = wide ''getUsersPosts''"
  "name (hd noid_tools) = ''getJobTemplatesWorkFlowsByRun_id''"
  by code_simp+

section \<open>Merged parameters\<close>

text \<open>
  The merged list has one entry for every name and location, and the entry is the last
  one with that name and location in the operation's parameters followed by the path
  item's.
\<close>

lemma findIndex_Some:
  "findIndex P xs = Some i \<Longrightarrow> i < length xs \<and> P (xs ! i)"
proof (induction xs arbitrary: i)
  case Nil
  then show ?case by simp
next
  case (Cons x xs)
  then show ?case by (cases "P x") (auto simp: nth_Cons')
qed

lemma findIndex_None: "findIndex P xs = None \<Longrightarrow> x \<in> set xs \<Longrightarrow> \<not> P x"
  by (induction xs) (auto split: if_splits)

lemma by_key_update:
  assumes "distinct (map param_key ps)" "i < length ps" "param_key (ps ! i) = param_key x"
  shows "by_key (ps[i := x]) = (by_key ps)(param_key x \<mapsto> x)"
    and "map param_key (ps[i := x]) = map param_key ps"
proof -
  show keys: "map param_key (ps[i := x]) = map param_key ps"
    using assms(2,3) by (simp add: map_update list_update_same_conv)
  show "by_key (ps[i := x]) = (by_key ps)(param_key x \<mapsto> x)"
  proof (rule ext)
    fix k
    show "by_key (ps[i := x]) k = ((by_key ps)(param_key x \<mapsto> x)) k"
      using assms
    proof (induction ps arbitrary: i)
      case Nil
      then show ?case by simp
    next
      case (Cons p ps)
      show ?case
      proof (cases i)
        case 0
        with Cons.prems show ?thesis by (simp add: by_key_def)
      next
        case (Suc j)
        with Cons.prems have j: "j < length ps" "param_key (ps ! j) = param_key x"
          and d: "distinct (map param_key ps)" and n: "param_key p \<notin> set (map param_key ps)"
          by auto
        from j n have "param_key p \<noteq> param_key x"
          by (metis nth_mem length_map nth_map)
        moreover from Cons.IH[OF d j] have "by_key (ps[j := x]) k = ((by_key ps)(param_key x \<mapsto> x)) k" .
        ultimately show ?thesis using Suc by (auto simp: by_key_def)
      qed
    qed
  qed
qed

lemma by_key_append:
  assumes "\<And>p. p \<in> set ps \<Longrightarrow> param_key p \<noteq> param_key x"
  shows "by_key (ps @ [x]) = (by_key ps)(param_key x \<mapsto> x)"
proof (rule ext)
  fix k
  show "by_key (ps @ [x]) k = ((by_key ps)(param_key x \<mapsto> x)) k"
  proof (cases "k = param_key x")
    case True
    have "k \<notin> fst ` set (map (\<lambda>p. (param_key p, p)) ps)"
    proof
      assume "k \<in> fst ` set (map (\<lambda>p. (param_key p, p)) ps)"
      then obtain p where "p \<in> set ps" "param_key p = k" by auto
      with assms True show False by blast
    qed
    then have "by_key ps k = None"
      unfolding by_key_def by (rule map_of_eq_None_iff[THEN iffD2])
    with True show ?thesis by (simp add: by_key_def map_add_def)
  next
    case False
    then show ?thesis by (simp add: by_key_def map_add_def split: option.splits)
  qed
qed

lemma merge_step:
  fixes allParameters :: "parameter list"
  defines "step \<equiv> (\<lambda>allParameters opParam.
              case findIndex (\<lambda>pathParam. p_name pathParam = p_name opParam
                                \<and> p_in pathParam = p_in opParam) allParameters of
                Some existingIndex \<Rightarrow> allParameters[existingIndex := opParam]
              | None \<Rightarrow> allParameters @ [opParam])"
  assumes "distinct (map param_key acc)"
  shows "distinct (map param_key (foldl step acc xs))
         \<and> by_key (foldl step acc xs) = fold (\<lambda>x m. m(param_key x \<mapsto> x)) xs (by_key acc)"
  using assms(2)
proof (induction xs arbitrary: acc)
  case Nil
  then show ?case by simp
next
  case (Cons x xs)
  let ?P = "\<lambda>pathParam. p_name pathParam = p_name x \<and> p_in pathParam = p_in x"
  have one: "distinct (map param_key (step acc x))
             \<and> by_key (step acc x) = (by_key acc)(param_key x \<mapsto> x)"
  proof (cases "findIndex ?P acc")
    case None
    then have n: "\<And>p. p \<in> set acc \<Longrightarrow> param_key p \<noteq> param_key x"
      using findIndex_None[of ?P acc] by (auto simp: param_key_def)
    from None have s: "step acc x = acc @ [x]" by (simp add: step_def)
    from n have "param_key x \<notin> set (map param_key acc)" by (metis imageE list.set_map)
    with Cons.prems have "distinct (map param_key (acc @ [x]))" by simp
    with by_key_append[of acc x] n s show ?thesis by simp
  next
    case (Some i)
    from findIndex_Some[OF Some] have i: "i < length acc" "param_key (acc ! i) = param_key x"
      by (simp_all add: param_key_def)
    from Some have s: "step acc x = acc[i := x]" by (simp add: step_def)
    from by_key_update[OF Cons.prems i] s Cons.prems show ?thesis by simp
  qed
  from Cons.IH[of "step acc x"] one show ?case by simp
qed

lemma fold_upd_last:
  "fold (\<lambda>x m. m(param_key x \<mapsto> x)) xs m k =
     (case by_key (rev xs) k of Some p \<Rightarrow> Some p | None \<Rightarrow> m k)"
proof (induction xs arbitrary: m)
  case Nil
  then show ?case by (simp add: by_key_def)
next
  case (Cons x xs)
  have "fold (\<lambda>x m. m(param_key x \<mapsto> x)) (x # xs) m k
          = fold (\<lambda>x m. m(param_key x \<mapsto> x)) xs (m(param_key x \<mapsto> x)) k"
    by simp
  also have "\<dots> = (case by_key (rev xs) k of Some p \<Rightarrow> Some p
                       | None \<Rightarrow> (m(param_key x \<mapsto> x)) k)"
    by (rule Cons.IH)
  also have "\<dots> = (case by_key (rev (x # xs)) k of Some p \<Rightarrow> Some p | None \<Rightarrow> m k)"
    by (simp add: by_key_def map_add_def split: option.splits)
  finally show ?case .
qed

lemma mergeParameters_last_wins:
  "distinct (map param_key (mergeParameters operationParameters pathParameters))
   \<and> by_key (mergeParameters operationParameters pathParameters)
       = by_key (rev (operationParameters @ pathParameters))"
proof -
  have d: "distinct (map param_key ([] :: parameter list))" by simp
  from merge_step[OF d, of "operationParameters @ pathParameters"]
  have 1: "distinct (map param_key (mergeParameters operationParameters pathParameters))"
    and 2: "by_key (mergeParameters operationParameters pathParameters)
         = fold (\<lambda>x m. m(param_key x \<mapsto> x)) (operationParameters @ pathParameters) (by_key [])"
    by (simp_all add: mergeParameters_def)
  have "by_key (mergeParameters operationParameters pathParameters) k
       = by_key (rev (operationParameters @ pathParameters)) k" for k
  proof -
    have "by_key [] k = None" by (simp add: by_key_def)
    then show ?thesis
      unfolding 2 fold_upd_last[of "operationParameters @ pathParameters" "by_key []" k]
      by (cases "by_key (rev (operationParameters @ pathParameters)) k") simp_all
  qed
  with 1 show ?thesis by blast
qed

text \<open>
  C4 fails on the code. The loop runs over the operation's parameters followed by the
  path item's and overwrites the entry it finds with the same name and location, so where
  both levels declare a parameter the path item's entry is the one kept, against the
  comment in the code that the operation's overrides.
\<close>

theorem mergeParameters_keeps_path_level:
  "mergeParameters [operation_level_id] [path_level_id] = [path_level_id]
   \<and> map_sum id (map parameters) (extractToolsFromApi [] merge_doc True)
       = Inr [[path_level_id]]"
  by code_simp

section \<open>The session registry\<close>

lemma registry_snoc:
  "registry cats v (reqs @ [r]) = handle cats v (registry cats v reqs) r"
  by (simp add: registry_def)

lemma requestCategory_known:
  "requestCategory cats param = ''all'' \<or> requestCategory cats param \<in> set (map fst cats)"
  by (simp add: requestCategory_def split: option.splits)

lemma handle_category:
  assumes "\<And>sid s. sd sid = Some s \<Longrightarrow> category s = ''all'' \<or> category s \<in> set (map fst cats)"
    and "handle cats v sd r sid = Some s"
  shows "category s = ''all'' \<or> category s \<in> set (map fst cats)"
proof (cases r)
  case (Initialize sessionId authHeader agentHeader param tr)
  show ?thesis
  proof (cases "handle cats v sd r = sd")
    case True
    with assms show ?thesis by simp
  next
    case False
    with Initialize obtain tok agent where
      h: "handle cats v sd r = storeSessionData sd sessionId tok agent
            (requestCategory cats param) tr"
      by (auto simp: Let_def split: option.splits if_splits)
    show ?thesis
    proof (cases "sid = sessionId")
      case True
      with assms(2) h have "category s = requestCategory cats param"
        by (auto simp: storeSessionData_def)
      with requestCategory_known[of cats param] show ?thesis by simp
    next
      case False
      with assms(2) h have "sd sid = Some s" by (simp add: storeSessionData_def)
      with assms(1) show ?thesis by blast
    qed
  qed
next
  case (Closed x)
  with assms(2) have "sd sid = Some s" by (simp split: if_splits)
  with assms(1) show ?thesis by blast
next
  case (Delete x)
  with assms(2) have "sd sid = Some s" by (simp split: if_splits)
  with assms(1) show ?thesis by blast
next
  case Shutdown
  with assms(2) show ?thesis by simp
qed

lemma registry_category:
  "registry cats v reqs sid = Some s \<Longrightarrow>
   category s = ''all'' \<or> category s \<in> set (map fst cats)"
proof (induction reqs arbitrary: sid s rule: rev_induct)
  case Nil
  then show ?case by (simp add: registry_def)
next
  case (snoc r reqs)
  from snoc.prems have "handle cats v (registry cats v reqs) r sid = Some s"
    by (simp add: registry_snoc)
  from handle_category[OF _ this] snoc.IH show ?case by blast
qed

lemma filterToolsByCategory_known:
  assumes "cat = ''all'' \<or> cat \<in> set (map fst cats)"
  shows "filterToolsByCategory cats tools cat
         = Inr (filter (\<lambda>t. name t \<in> category_tool_names cats cat) tools)"
proof (cases "cat = ''all''")
  case True
  then show ?thesis by (simp add: filterToolsByCategory_def category_tool_names_def)
next
  case False
  with assms have "cat \<in> fst ` set cats" by simp
  then obtain names where "map_of cats cat = Some names"
    by (meson map_of_eq_None_iff not_Some_eq)
  with False show ?thesis by (simp add: filterToolsByCategory_def category_tool_names_def)
qed

text \<open>
  C10. Every session of the registry, after any requests, is bound to \<open>all\<close> or to a key of
  the category map, so filtering by its category finds an entry, and listing the tools for
  its identifier does not fail.
\<close>

theorem registered_category_known:
  assumes "registry cats v reqs sid = Some s"
  shows "(category s = ''all'' \<or> category s \<in> set (map fst cats))
         \<and> \<not> isl (filterToolsByCategory cats allTools (category s))
         \<and> (sid \<noteq> [] \<longrightarrow> \<not> isl (listTools cats allTools (registry cats v reqs) (Some sid)))"
proof -
  from registry_category[OF assms]
  have k: "category s = ''all'' \<or> category s \<in> set (map fst cats)" .
  from filterToolsByCategory_known[OF k, of allTools]
  have f: "\<not> isl (filterToolsByCategory cats allTools (category s))" by simp
  from filterToolsByCategory_known[OF k, of allTools] assms
  have "sid \<noteq> [] \<longrightarrow> \<not> isl (listTools cats allTools (registry cats v reqs) (Some sid))"
    by (simp add: listTools_def)
  with k f show ?thesis by blast
qed

theorem registered_category_known_witness:
  "example_registry ''s2'' = Some \<lparr> token = ''good'', userAgent = ''curl'', category = ''all'',
                                    transport = 1 \<rparr>
   \<and> (category \<lparr> token = ''good'', userAgent = ''curl'', category = ''all'', transport = 1 \<rparr>
        = ''all'')
   \<and> \<not> isl (listTools example_categories ai_tools example_registry (Some ''s2''))"
proof -
  have r: "registry example_categories example_validateToken example_requests ''s2''
        = Some \<lparr> token = ''good'', userAgent = ''curl'', category = ''all'', transport = 1 \<rparr>"
    by code_simp
  from registered_category_known[OF r, of ai_tools] r
  show ?thesis by (simp add: example_registry_def)
qed

text \<open>
  C1. For a session of the registry, listing gives exactly the tools of the catalog whose
  names the session's category gives access to (for \<open>all\<close>, the names of every category);
  a call finds the tool by its name in the whole catalog, whatever the category of the
  session is, so a tool of the catalog that is outside the category is still found.
\<close>

theorem list_by_category_call_by_name:
  assumes "registry cats v reqs sid = Some s" and "sid \<noteq> []"
  shows "listTools cats allTools (registry cats v reqs) (Some sid)
           = Inr (map (\<lambda>t. (name t, description t, inputSchema t))
                   (filter (\<lambda>t. name t \<in> category_tool_names cats (category s)) allTools))
         \<and> (nm \<in> set (map name allTools) \<longrightarrow>
              (\<exists>t. callTool allTools (registry cats v reqs) (Some sid) nm = Inr t
                   \<and> t \<in> set allTools \<and> name t = nm))
         \<and> callTool allTools ((registry cats v reqs)(sid \<mapsto> s\<lparr>category := c\<rparr>)) (Some sid) nm
             = callTool allTools (registry cats v reqs) (Some sid) nm"
proof -
  from registry_category[OF assms(1)]
  have k: "category s = ''all'' \<or> category s \<in> set (map fst cats)" .
  from filterToolsByCategory_known[OF k, of allTools] assms
  have l: "listTools cats allTools (registry cats v reqs) (Some sid)
           = Inr (map (\<lambda>t. (name t, description t, inputSchema t))
                   (filter (\<lambda>t. name t \<in> category_tool_names cats (category s)) allTools))"
    by (simp add: listTools_def)
  have c: "nm \<in> set (map name allTools) \<longrightarrow>
              (\<exists>t. callTool allTools (registry cats v reqs) (Some sid) nm = Inr t
                   \<and> t \<in> set allTools \<and> name t = nm)"
  proof
    assume "nm \<in> set (map name allTools)"
    then obtain t where "find (\<lambda>t. name t = nm) allTools = Some t"
      by (cases "find (\<lambda>t. name t = nm) allTools") (auto simp: find_None_iff)
    moreover from this have "t \<in> set allTools \<and> name t = nm"
      by (auto simp: find_Some_iff)
    ultimately show "\<exists>t. callTool allTools (registry cats v reqs) (Some sid) nm = Inr t
                   \<and> t \<in> set allTools \<and> name t = nm"
      using assms by (simp add: callTool_def)
  qed
  have i: "callTool allTools ((registry cats v reqs)(sid \<mapsto> s\<lparr>category := c\<rparr>)) (Some sid) nm
             = callTool allTools (registry cats v reqs) (Some sid) nm"
    using assms by (simp add: callTool_def)
  from l c i show ?thesis by blast
qed

theorem list_by_category_call_by_name_witness:
  "listTools example_categories ai_tools example_registry (Some ''s1'')
     = Inr (map (\<lambda>t. (name t, description t, inputSchema t))
             (filter (\<lambda>t. name t \<in> category_tool_names example_categories ''readonly'')
                ai_tools))
   \<and> ''putWidget'' \<notin> category_tool_names example_categories ''readonly''
   \<and> (\<exists>t. callTool ai_tools example_registry (Some ''s1'') ''putWidget'' = Inr t
           \<and> t \<in> set ai_tools \<and> name t = ''putWidget'')"
proof -
  have r: "registry example_categories example_validateToken example_requests ''s1''
        = Some \<lparr> token = ''good'', userAgent = ''unknown'', category = ''readonly'',
                 transport = 0 \<rparr>"
    by code_simp
  have n: "''s1'' \<noteq> []" by simp
  have m: "''putWidget'' \<in> set (map name ai_tools)"
    by code_simp
  have o: "''putWidget'' \<notin> category_tool_names example_categories ''readonly''"
    by (simp add: category_tool_names_def example_categories_def)
  from list_by_category_call_by_name[OF r n, of ai_tools "''putWidget''" "''all''"] m o
  show ?thesis by (simp add: example_registry_def)
qed

section \<open>Schema translation: cycles and references\<close>

lemma map_of_mapped:
  "map_of xs k = Some v \<Longrightarrow> P v \<Longrightarrow>
   map_of (map (\<lambda>(key, x). (key, f x)) (filter (\<lambda>(key, x). P x) xs)) k = Some (f v)"
  by (induction xs) (auto split: if_splits)

lemma mapNode_step:
  assumes "\<not> length st \<le> a" "\<not> has_key ''$ref'' (st ! a)" "a \<notin> set seen"
    and "child st a s = Some b"
  shows "out_at (mapNode st seen a) (s # ss) = out_at (mapNode st (a # seen) b) ss"
proof (cases s)
  case (Property key)
  let ?js = "convert_keywords (st ! a)"
  from assms(4) Property have ty: "get ?js ''type'' = VStr ''object''"
    and pr: "truthy (get ?js ''properties'')"
    and k: "map_of (entries st (get ?js ''properties'')) key = Some (VObj b)"
    by (auto simp: child_def Let_def split: if_splits option.splits val.splits)
  have ob: "is_object (VObj b) \<or> is_boolean (VObj b)" by (simp add: is_object_def)
  from map_of_mapped[where f = "\<lambda>propSchema. case propSchema of
                                        VObj b \<Rightarrow> mapNode st (a # seen) b
                                      | VArr xs \<Rightarrow> array_copy xs
                                      | _ \<Rightarrow> OVal propSchema"
      and P = "\<lambda>x. is_object x \<or> is_boolean x", OF k ob]
  have m: "map_of (map (\<lambda>(key, propSchema).
                                (key, case propSchema of
                                        VObj b \<Rightarrow> mapNode st (a # seen) b
                                      | VArr xs \<Rightarrow> array_copy xs
                                      | _ \<Rightarrow> OVal propSchema))
                             (filter (\<lambda>(key, propSchema). is_object propSchema \<or> is_boolean propSchema)
                                (entries st (get ?js ''properties'')))) key
           = Some (mapNode st (a # seen) b)"
    by simp
  show ?thesis
    using assms(1-3) ty pr m unfolding Property
    by (subst mapNode.simps) (simp add: Let_def update_conv')
next
  case Items
  let ?js = "convert_keywords (st ! a)"
  from assms(4) Items have ty: "get ?js ''type'' = VStr ''array''"
    and it: "get ?js ''items'' = VObj b"
    by (auto simp: child_def Let_def split: if_splits val.splits)
  show ?thesis
    using assms(1-3) ty it unfolding Items
    by (subst mapNode.simps) (simp add: Let_def update_conv' is_object_def)
qed

lemma mapNode_walk:
  "walk st seen a ss = Some (path, b) \<Longrightarrow>
   out_at (mapNode st seen a) ss = Some (mapNode st path b)"
proof (induction ss arbitrary: seen a)
  case Nil
  then show ?case by simp
next
  case (Cons s ss)
  from Cons.prems have c: "\<not> length st \<le> a" "\<not> has_key ''$ref'' (st ! a)" "a \<notin> set seen"
    by (auto split: if_splits)
  with Cons.prems obtain b' where ch: "child st a s = Some b'"
    and w: "walk st (a # seen) b' ss = Some (path, b)"
    by (auto split: option.splits)
  from mapNode_step[OF c ch] Cons.IH[OF w] show ?case by simp
qed

lemma mapNode_generic:
  "a < length st \<Longrightarrow> has_key ''$ref'' (st ! a) \<or> a \<in> set seen \<Longrightarrow>
   mapNode st seen a = OObj [(''type'', OVal (VStr ''object''))]"
  by (subst mapNode.simps) (auto simp: generic_object_def)

text \<open>
  C8. The translation of the node at any address of any store terminates: the argument is
  in the domain of \<open>mapNode\<close>, and \<open>mapOpenApiSchemaToJsonSchema\<close> returns for it. For a
  node of the store that is on the path, and for one with a \<open>$ref\<close> key, the result is
  \<open>{type: "object"}\<close>. Below a node: at the position a walk arrives at stands the
  translation of the node the walk arrives at, under the path of the walk; so where a
  walk comes back to a node of its path, or comes to a node with a \<open>$ref\<close> key, stands
  \<open>{type: "object"}\<close>, and nothing is translated below it.
\<close>

theorem schema_translation_terminates:
  "mapNode_dom (st, seen, a)
   \<and> mapOpenApiSchemaToJsonSchema st seen (VObj a) = Inr (mapNode st seen a)
   \<and> (a < length st \<and> (has_key ''$ref'' (st ! a) \<or> a \<in> set seen) \<longrightarrow>
        mapOpenApiSchemaToJsonSchema st seen (VObj a) =
          Inr (OObj [(''type'', OVal (VStr ''object''))]))
   \<and> (walk st seen a steps = Some (path, b) \<longrightarrow>
        out_at (mapNode st seen a) steps = Some (mapNode st path b))
   \<and> (walk st seen a steps = Some (path, b) \<and> b < length st
        \<and> (has_key ''$ref'' (st ! b) \<or> b \<in> set path) \<longrightarrow>
        out_at (mapNode st seen a) steps = Some (OObj [(''type'', OVal (VStr ''object''))]))"
proof -
  have d: "mapNode_dom (st, seen, a)" using mapNode_total by blast
  have 1: "mapOpenApiSchemaToJsonSchema st seen (VObj a) = Inr (mapNode st seen a)"
    by (simp add: mapOpenApiSchemaToJsonSchema_def)
  have 2: "a < length st \<and> (has_key ''$ref'' (st ! a) \<or> a \<in> set seen) \<longrightarrow>
        mapOpenApiSchemaToJsonSchema st seen (VObj a) =
          Inr (OObj [(''type'', OVal (VStr ''object''))])"
    using mapNode_generic[of a st seen] by (simp add: 1)
  have 3: "walk st seen a steps = Some (path, b) \<longrightarrow>
        out_at (mapNode st seen a) steps = Some (mapNode st path b)"
    using mapNode_walk by blast
  have 4: "walk st seen a steps = Some (path, b) \<and> b < length st
        \<and> (has_key ''$ref'' (st ! b) \<or> b \<in> set path) \<longrightarrow>
        out_at (mapNode st seen a) steps = Some (OObj [(''type'', OVal (VStr ''object''))])"
    using mapNode_walk[of st seen a steps path b] mapNode_generic[of b st path] by auto
  from d 1 2 3 4 show ?thesis by blast
qed

theorem schema_translation_terminates_witness:
  "mapNode_dom (cyclic_store, [], 0)
   \<and> mapOpenApiSchemaToJsonSchema cyclic_store [0] (VObj 0) =
       Inr (OObj [(''type'', OVal (VStr ''object''))])
   \<and> mapOpenApiSchemaToJsonSchema cyclic_store [] (VObj 3) =
       Inr (OObj [(''type'', OVal (VStr ''object''))])
   \<and> out_at (mapNode cyclic_store [] 0) [Property ''self'']
       = Some (OObj [(''type'', OVal (VStr ''object''))])
   \<and> out_at (mapNode cyclic_store [] 0) [Property ''children'', Items]
       = Some (OObj [(''type'', OVal (VStr ''object''))])
   \<and> out_at (mapNode cyclic_store [] 0) [Property ''ref'']
       = Some (OObj [(''type'', OVal (VStr ''object''))])
   \<and> mapOpenApiSchemaToJsonSchema cyclic_store [] (VObj 0) =
       Inr (OObj [(''type'', OVal (VStr ''object'')), (''title'', OVal (VStr ''Node'')),
                  (''properties'',
                   OObj [(''self'', OObj [(''type'', OVal (VStr ''object''))]),
                         (''children'',
                          OObj [(''type'', OVal (VStr ''array'')),
                                (''items'', OObj [(''type'', OVal (VStr ''object''))])]),
                         (''ref'', OObj [(''type'', OVal (VStr ''object''))]),
                         (''name'', OObj [(''type'', OVal (VStr ''string''))]),
                         (''label'', OObj [(''type'', OVal (VStr ''string''))])])])"
proof -
  have l0: "(0::nat) < length cyclic_store" "(0::nat) \<in> set [0]" "(0::nat) \<in> set [2, 0]"
    by (simp_all add: cyclic_store_def)
  have l3: "(3::nat) < length cyclic_store" "has_key ''$ref'' (cyclic_store ! 3)"
    by (simp_all add: cyclic_store_def has_key_def)
  have w1: "walk cyclic_store [] 0 [Property ''self''] = Some ([0], 0)"
    by code_simp
  have w2: "walk cyclic_store [] 0 [Property ''children'', Items] = Some ([2, 0], 0)"
    by code_simp
  have w3: "walk cyclic_store [] 0 [Property ''ref''] = Some ([0], 3)"
    by code_simp
  have e: "mapNode cyclic_store [] 0 =
       OObj [(''type'', OVal (VStr ''object'')), (''title'', OVal (VStr ''Node'')),
                  (''properties'',
                   OObj [(''self'', OObj [(''type'', OVal (VStr ''object''))]),
                         (''children'',
                          OObj [(''type'', OVal (VStr ''array'')),
                                (''items'', OObj [(''type'', OVal (VStr ''object''))])]),
                         (''ref'', OObj [(''type'', OVal (VStr ''object''))]),
                         (''name'', OObj [(''type'', OVal (VStr ''string''))]),
                         (''label'', OObj [(''type'', OVal (VStr ''string''))])])]"
    by code_simp
  from schema_translation_terminates[of cyclic_store "[]" 0 "[]" "[]" 0]
  have c1: "mapNode_dom (cyclic_store, [], 0)"
    and c7: "mapOpenApiSchemaToJsonSchema cyclic_store [] (VObj 0) = Inr (mapNode cyclic_store [] 0)"
    by blast+
  from schema_translation_terminates[of cyclic_store "[0]" 0 "[]" "[0]" 0] l0
  have c2: "mapOpenApiSchemaToJsonSchema cyclic_store [0] (VObj 0) =
       Inr (OObj [(''type'', OVal (VStr ''object''))])"
    by blast
  from schema_translation_terminates[of cyclic_store "[]" 3 "[]" "[]" 3] l3
  have c3: "mapOpenApiSchemaToJsonSchema cyclic_store [] (VObj 3) =
       Inr (OObj [(''type'', OVal (VStr ''object''))])"
    by blast
  from schema_translation_terminates[of cyclic_store "[]" 0 "[Property ''self'']" "[0]" 0] w1 l0
  have c4: "out_at (mapNode cyclic_store [] 0) [Property ''self'']
       = Some (OObj [(''type'', OVal (VStr ''object''))])"
    by blast
  from schema_translation_terminates
         [of cyclic_store "[]" 0 "[Property ''children'', Items]" "[2, 0]" 0] w2 l0
  have c5: "out_at (mapNode cyclic_store [] 0) [Property ''children'', Items]
       = Some (OObj [(''type'', OVal (VStr ''object''))])"
    by blast
  from schema_translation_terminates[of cyclic_store "[]" 0 "[Property ''ref'']" "[0]" 3] w3 l3
  have c6: "out_at (mapNode cyclic_store [] 0) [Property ''ref'']
       = Some (OObj [(''type'', OVal (VStr ''object''))])"
    by blast
  from c1 c2 c3 c4 c5 c6 c7 e show ?thesis by simp
qed

section \<open>Names of a catalog\<close>

lemma counter_suffix_0: "counter_suffix c 0 = []"
  by (simp add: counter_suffix_def)

lemma counter_suffix_Suc:
  "counter_suffix c (Suc k) = ''_'' @ decimal c @ counter_suffix (Suc c) k"
proof -
  have "[c..<c + Suc k] = c # [Suc c..<Suc c + k]"
    by (simp add: upt_conv_Cons)
  then show ?thesis by (simp add: counter_suffix_def)
qed

lemma uniqueName_fresh: "uniqueName used cand c \<notin> set used"
proof (induction used cand c rule: uniqueName.induct)
  case (1 usedNames nameCandidate counter)
  show ?case
  proof (cases "nameCandidate \<in> set usedNames")
    case True
    with 1 show ?thesis by (subst uniqueName.simps) simp
  next
    case False
    then show ?thesis by (subst uniqueName.simps) simp
  qed
qed

lemma uniqueName_suffix:
  "\<exists>k. uniqueName used cand c = cand @ counter_suffix c k
       \<and> (\<forall>j<k. cand @ counter_suffix c j \<in> set used)"
proof (induction used cand c rule: uniqueName.induct)
  case (1 usedNames nameCandidate counter)
  show ?case
  proof (cases "nameCandidate \<in> set usedNames")
    case False
    then have "uniqueName usedNames nameCandidate counter = nameCandidate @ counter_suffix counter 0"
      by (subst uniqueName.simps) (simp add: counter_suffix_0)
    then show ?thesis by blast
  next
    case True
    from 1[OF True] obtain k where
      k: "uniqueName usedNames (nameCandidate @ ''_'' @ decimal counter) (Suc counter)
            = (nameCandidate @ ''_'' @ decimal counter) @ counter_suffix (Suc counter) k"
      and u: "\<forall>j<k. (nameCandidate @ ''_'' @ decimal counter) @ counter_suffix (Suc counter) j
                \<in> set usedNames"
      by blast
    have "uniqueName usedNames nameCandidate counter
            = nameCandidate @ counter_suffix counter (Suc k)"
      using True k by (subst uniqueName.simps) (simp add: counter_suffix_Suc)
    moreover have "\<forall>j<Suc k. nameCandidate @ counter_suffix counter j \<in> set usedNames"
    proof (intro allI impI)
      fix j assume "j < Suc k"
      show "nameCandidate @ counter_suffix counter j \<in> set usedNames"
      proof (cases j)
        case 0
        with True show ?thesis by (simp add: counter_suffix_0)
      next
        case (Suc j')
        with \<open>j < Suc k\<close> u show ?thesis by (simp add: counter_suffix_Suc)
      qed
    qed
    ultimately show ?thesis by blast
  qed
qed

lemma digit_allowed: "d < 10 \<Longrightarrow> allowed_char (digit_char d)"
  by (simp add: allowed_char_def digit_char_def Let_def)

lemma decimal_allowed: "list_all allowed_char (decimal n)"
proof (induction n rule: decimal.induct)
  case (1 n)
  show ?case
  proof (cases "n < 10")
    case True
    then show ?thesis by (subst decimal.simps) (simp add: digit_allowed)
  next
    case False
    with 1 show ?thesis by (subst decimal.simps) (simp add: digit_allowed)
  qed
qed

lemma counter_suffix_allowed: "list_all allowed_char (counter_suffix c k)"
proof (induction k arbitrary: c)
  case 0
  then show ?case by (simp add: counter_suffix_0)
next
  case (Suc k)
  have "allowed_char (CHR ''_'')" by (simp add: allowed_char_def)
  with Suc decimal_allowed show ?case by (simp add: counter_suffix_Suc)
qed

lemma compileOperation_none:
  "compileOperation st api d used path pathItem meth rawOperation = Inr (used1, None)
   \<Longrightarrow> used1 = used"
  by (simp add: compileOperation_def Let_def split: if_splits sum.splits prod.splits)

lemma compileOperations_prefix:
  "compileOperations st api d ops tools used = Inr result \<Longrightarrow> set tools \<subseteq> set result"
proof (induction ops arbitrary: tools used)
  case Nil
  then show ?case by simp
next
  case (Cons x ops)
  obtain path pathItem meth rawOperation where x: "x = (path, pathItem, meth, rawOperation)"
    by (cases x) auto
  show ?case
  proof (cases "compileOperation st api d used path pathItem meth rawOperation")
    case (Inl e)
    with Cons.prems x show ?thesis by simp
  next
    case (Inr r)
    obtain used' ot where r: "r = (used', ot)" by (cases r) auto
    show ?thesis
    proof (cases ot)
      case None
      with Cons.prems x Inr r
      have "compileOperations st api d ops tools used' = Inr result" by simp
      from Cons.IH[OF this] show ?thesis .
    next
      case (Some t')
      with Cons.prems x Inr r
      have "compileOperations st api d ops (tools @ [t']) used' = Inr result" by simp
      from Cons.IH[OF this] show ?thesis by simp
    qed
  qed
qed

lemma compileOperations_names:
  "compileOperations st api d ops tools used = Inr result \<Longrightarrow>
   distinct (map name tools) \<Longrightarrow> set used = set (map name tools) \<Longrightarrow>
   (\<forall>t\<in>set tools. suffixed result t) \<Longrightarrow>
   distinct (map name result) \<and> (\<forall>t\<in>set result. suffixed result t)"
proof (induction ops arbitrary: tools used)
  case Nil
  then show ?case by simp
next
  case (Cons x ops)
  obtain path pathItem meth rawOperation where x: "x = (path, pathItem, meth, rawOperation)"
    by (cases x) auto
  show ?case
  proof (cases "compileOperation st api d used path pathItem meth rawOperation")
    case (Inl e)
    with Cons.prems x show ?thesis by simp
  next
    case (Inr r)
    obtain used' ot where r: "r = (used', ot)" by (cases r) auto
    show ?thesis
    proof (cases ot)
      case None
      with Inr r have "used' = used" by (simp add: compileOperation_none)
      moreover from None Cons.prems x Inr r
      have "compileOperations st api d ops tools used' = Inr result" by simp
      ultimately show ?thesis using Cons.IH Cons.prems by blast
    next
      case (Some t')
      with Cons.prems x Inr r
      have rest: "compileOperations st api d ops (tools @ [t']) used' = Inr result" by simp
      from compileOperations_prefix[OF rest] have sub: "set (tools @ [t']) \<subseteq> set result" .
      let ?op = "AAPOperationObject rawOperation"
      let ?base = "baseName ?op meth path"
      from Inr r Some
      have c: "compileOperation st api d used path pathItem meth rawOperation
                 = Inr (used', Some t')" by simp
      from compileOperation_tool[OF c] obtain schema params contentType where
        base: "?base \<noteq> []" and u: "used' = List.insert (name t') used"
        and t': "t' = makeTool api ?op meth path ?base (uniqueName used (sanitize ?base) 1)
                   schema params contentType"
        by blast
      have n: "name t' = uniqueName used (sanitize ?base) 1" and o: "operationId t' = ?base"
        by (simp_all add: t' makeTool_def)
      from n uniqueName_fresh[of used] have fresh: "name t' \<notin> set used" by simp
      from uniqueName_suffix[of used "sanitize ?base" 1] n o obtain k where
        k: "name t' = sanitize (operationId t') @ counter_suffix 1 k"
        and b: "\<forall>j<k. sanitize (operationId t') @ counter_suffix 1 j \<in> set used"
        by auto
      from Cons.prems(3) sub have "set used \<subseteq> set (map name result)" by auto
      with b have
        "\<forall>j<k. sanitize (operationId t') @ counter_suffix 1 j \<in> set (map name result)"
        by blast
      with k base o have st': "suffixed result t'" by (auto simp: suffixed_def)
      from fresh Cons.prems(2,3) have d': "distinct (map name (tools @ [t']))" by simp
      from u Cons.prems(3) have s': "set used' = set (map name (tools @ [t']))" by auto
      from st' Cons.prems(4) have a': "\<forall>t\<in>set (tools @ [t']). suffixed result t" by simp
      from Cons.IH[OF rest d' s' a'] show ?thesis .
    qed
  qed
qed

lemma suffixed_alphabet:
  assumes "suffixed catalog t"
  shows "name t \<noteq> [] \<and> list_all allowed_char (name t)"
proof -
  from assms obtain k where k: "name t = sanitize (operationId t) @ counter_suffix 1 k"
    and b: "operationId t \<noteq> []"
    by (auto simp: suffixed_def)
  from b have "sanitize (operationId t) \<noteq> []" by (simp add: sanitize_def)
  with k sanitize_allowed[of "operationId t"] counter_suffix_allowed[of 1 k]
  show ?thesis by simp
qed

lemma collect_Inr: "collect rs = Inr xs \<Longrightarrow> rs = map Inr xs"
proof (induction rs arbitrary: xs)
  case Nil
  then show ?case by simp
next
  case (Cons r rs)
  then show ?case by (auto split: sum.splits)
qed

lemma withSize_Inr:
  assumes "withSize st t1 = Inr t"
  shows "\<exists>text. JSON_stringify st (size_object t) = Inr text \<and> tool_size t = Some (length text)
           \<and> name t = name t1"
proof -
  from assms obtain ser where j: "JSON_stringify st (size_object t1) = Inr ser"
    and t: "t = t1\<lparr>tool_size := Some (length ser)\<rparr>"
    by (auto simp: withSize_def split: sum.splits)
  from t have "size_object t = size_object t1" by (simp add: size_object_def)
  with j t show ?thesis by simp
qed

lemma generateTools_sized:
  assumes "generateTools allow st specs = Inr catalog"
  shows "\<exists>sized. map (withSize st) (concat (map (serviceTools allow st) specs)) = map Inr sized
           \<and> catalog = sort_key (\<lambda>t. - int (size_of t)) sized"
  using assms collect_Inr
  by (fastforce simp: generateTools_def Let_def split: sum.splits)

lemma generateTools_member:
  assumes "generateTools allow st specs = Inr catalog" and "t \<in> set catalog"
  shows "\<exists>sp t1. sp \<in> set specs \<and> t1 \<in> set (serviceTools allow st sp) \<and> withSize st t1 = Inr t"
proof -
  from generateTools_sized[OF assms(1)] obtain sized where
    m: "map (withSize st) (concat (map (serviceTools allow st) specs)) = map Inr sized"
    and c: "catalog = sort_key (\<lambda>t. - int (size_of t)) sized"
    by blast
  from c assms(2) have "t \<in> set sized" by simp
  then have "Inr t \<in> set (map Inr sized)" by simp
  with m have "Inr t \<in> set (map (withSize st) (concat (map (serviceTools allow st) specs)))"
    by simp
  then have "Inr t \<in> withSize st ` set (concat (map (serviceTools allow st) specs))"
    by (simp only: set_map)
  then obtain t1 where t1: "t1 \<in> set (concat (map (serviceTools allow st) specs))"
    and w: "withSize st t1 = Inr t"
    by (metis imageE)
  from t1 obtain sp where "sp \<in> set specs" "t1 \<in> set (serviceTools allow st sp)"
    by auto
  with w show ?thesis by blast
qed

lemma serviceTools_member:
  assumes "t1 \<in> set (serviceTools allow st sp)"
  shows "\<exists>tools t0. extractToolsFromApi st (spec_document sp) True = Inr tools \<and> t0 \<in> set tools
           \<and> t1 = fst (reformatFunc sp (t0\<lparr>service := Some (spec_service sp)\<rparr>))"
proof -
  from assms obtain tools where e: "extractToolsFromApi st (spec_document sp) True = Inr tools"
    by (cases "extractToolsFromApi st (spec_document sp) True") (auto simp: serviceTools_def)
  with assms obtain t0 where "t0 \<in> set tools" and "filterTool allow sp t0 = Some t1"
    by (auto simp: serviceTools_def split: option.splits)
  moreover from this have "t1 = fst (reformatFunc sp (t0\<lparr>service := Some (spec_service sp)\<rparr>))"
    by (auto simp: filterTool_def Let_def split: if_splits prod.splits)
  ultimately show ?thesis using e by blast
qed

text \<open>
  C2, as the code has it. In the catalog extracted from one document the names are
  distinct, each is a non-empty word over \<open>[A-Za-z0-9_-]\<close>, and each is the sanitized base
  name followed by the counters 1, 2, ... appended one after another (\<open>base\<close>, \<open>base_1\<close>,
  \<open>base_1_2\<close>), as many as it takes for the name to be unused in that document. The
  aggregated catalog takes the names as each service's \<open>reformatFunc\<close> leaves them; when
  it leaves them unchanged they are non-empty words over the same alphabet.
\<close>

theorem names_unique_per_document:
  "(extractToolsFromApi st api d = Inr tools \<longrightarrow>
      distinct (map name tools)
      \<and> (\<forall>t\<in>set tools.
            name t \<noteq> [] \<and> list_all allowed_char (name t)
            \<and> (\<exists>k. name t = sanitize (operationId t) @ counter_suffix 1 k
                    \<and> (\<forall>j<k. sanitize (operationId t) @ counter_suffix 1 j
                                \<in> set (map name tools)))))
   \<and> ((\<forall>sp\<in>set specs. \<forall>t. name (fst (reformatFunc sp t)) = name t)
        \<and> generateTools allow st specs = Inr catalog \<longrightarrow>
        (\<forall>t\<in>set catalog. name t \<noteq> [] \<and> list_all allowed_char (name t)))"
proof -
  have per_document: "distinct (map name ts) \<and> (\<forall>t\<in>set ts. suffixed ts t)"
    if "extractToolsFromApi st doc b = Inr ts" for doc b ts
    using compileOperations_names[OF that[unfolded extractToolsFromApi_def]] by simp
  have 1: "extractToolsFromApi st api d = Inr tools \<longrightarrow>
      distinct (map name tools)
      \<and> (\<forall>t\<in>set tools.
            name t \<noteq> [] \<and> list_all allowed_char (name t)
            \<and> (\<exists>k. name t = sanitize (operationId t) @ counter_suffix 1 k
                    \<and> (\<forall>j<k. sanitize (operationId t) @ counter_suffix 1 j
                                \<in> set (map name tools))))"
  proof
    assume e: "extractToolsFromApi st api d = Inr tools"
    from per_document[OF e] have dist: "distinct (map name tools)"
      and suf: "\<forall>t\<in>set tools. suffixed tools t" by blast+
    have "name t \<noteq> [] \<and> list_all allowed_char (name t)
            \<and> (\<exists>k. name t = sanitize (operationId t) @ counter_suffix 1 k
                    \<and> (\<forall>j<k. sanitize (operationId t) @ counter_suffix 1 j
                                \<in> set (map name tools)))"
      if "t \<in> set tools" for t
    proof -
      from suf that have s: "suffixed tools t" by blast
      from suffixed_alphabet[OF s] s show ?thesis by (simp add: suffixed_def)
    qed
    with dist show "distinct (map name tools)
      \<and> (\<forall>t\<in>set tools.
            name t \<noteq> [] \<and> list_all allowed_char (name t)
            \<and> (\<exists>k. name t = sanitize (operationId t) @ counter_suffix 1 k
                    \<and> (\<forall>j<k. sanitize (operationId t) @ counter_suffix 1 j
                                \<in> set (map name tools))))"
      by blast
  qed
  have 2: "(\<forall>sp\<in>set specs. \<forall>t. name (fst (reformatFunc sp t)) = name t)
        \<and> generateTools allow st specs = Inr catalog \<longrightarrow>
        (\<forall>t\<in>set catalog. name t \<noteq> [] \<and> list_all allowed_char (name t))"
  proof (intro impI ballI)
    fix t
    assume a: "(\<forall>sp\<in>set specs. \<forall>t. name (fst (reformatFunc sp t)) = name t)
        \<and> generateTools allow st specs = Inr catalog"
      and t: "t \<in> set catalog"
    from a have g: "generateTools allow st specs = Inr catalog" by blast
    from generateTools_member[OF g t] obtain sp t1 where
      sp: "sp \<in> set specs" and t1: "t1 \<in> set (serviceTools allow st sp)"
      and w: "withSize st t1 = Inr t" by blast
    from serviceTools_member[OF t1] obtain ts t0 where
      e: "extractToolsFromApi st (spec_document sp) True = Inr ts" and t0: "t0 \<in> set ts"
      and r: "t1 = fst (reformatFunc sp (t0\<lparr>service := Some (spec_service sp)\<rparr>))"
      by blast
    from a sp r have "name t1 = name t0" by simp
    moreover from withSize_Inr[OF w] have "name t = name t1" by blast
    moreover from per_document[OF e] t0 have "suffixed ts t0" by blast
    ultimately show "name t \<noteq> [] \<and> list_all allowed_char (name t)"
      using suffixed_alphabet[of ts t0] by simp
  qed
  from 1 2 show ?thesis by blast
qed

theorem names_unique_per_document_witness:
  "distinct (map name twice_tools)
   \<and> map name twice_tools = [''items_list'', ''items_list_1'', ''items_list_1_2'']
   \<and> list_all (\<lambda>t. name t \<noteq> [] \<and> list_all allowed_char (name t)) twice_tools
   \<and> list_all (\<lambda>t. name t \<noteq> [] \<and> list_all allowed_char (name t)) two_services_catalog"
proof -
  have "\<not> isl (extractToolsFromApi [] twice_doc True)"
    by code_simp
  then have e: "extractToolsFromApi [] twice_doc True = Inr twice_tools"
    by (simp add: twice_tools_def)
  have "\<not> isl (generateTools True [] [service_a, service_b])"
    by code_simp
  then have g: "generateTools True [] [service_a, service_b] = Inr two_services_catalog"
    by (simp add: two_services_catalog_def)
  have k: "\<forall>sp\<in>set [service_a, service_b]. \<forall>t. name (fst (reformatFunc sp t)) = name t"
    by (simp add: service_a_def service_b_def keep_tool_def)
  have v: "map name twice_tools = [''items_list'', ''items_list_1'', ''items_list_1_2'']"
    by code_simp
  from names_unique_per_document
    [of "[]" twice_doc True twice_tools "[service_a, service_b]" True two_services_catalog]
    e g k
  have "distinct (map name twice_tools)"
    and "\<forall>t\<in>set twice_tools. name t \<noteq> [] \<and> list_all allowed_char (name t)"
    and "\<forall>t\<in>set two_services_catalog. name t \<noteq> [] \<and> list_all allowed_char (name t)"
    by blast+
  with v show ?thesis by (simp add: list_all_iff)
qed

text \<open>
  C2 as stated fails: the used names are kept per document, so two services whose
  documents have the same operation identifier give the aggregated catalog two tools of
  the same name.
\<close>

theorem names_collide_across_services_counterexample:
  "map name two_services_catalog = [''listItems'', ''listItems'']
   \<and> map service two_services_catalog = [Some ''a'', Some ''b'']
   \<and> \<not> distinct (map name two_services_catalog)"
  by code_simp

section \<open>Size and order of the catalog\<close>

lemma utf8_length_ascii: "list_all is_ascii s \<Longrightarrow> utf8_length s = length s"
  by (induction s) (simp_all add: utf8_length_def is_ascii_def)

lemma sorted_descending:
  "sorted_wrt (\<lambda>a b. size_of b \<le> size_of a) (sort_key (\<lambda>t. - int (size_of t)) xs)"
proof -
  have "sorted (map (\<lambda>t. - int (size_of t)) (sort_key (\<lambda>t. - int (size_of t)) xs))"
    by (rule sorted_sort_key)
  then show ?thesis by (simp add: sorted_map)
qed

text \<open>
  C9, as the code has it. The size of every tool of the aggregated catalog is the length of
  the serialized object \<open>{name, description, inputSchema}\<close>, counted in UTF-16 code units as
  \<open>.length\<close> counts; it is the number of bytes when the serialized text is ASCII; and the
  catalog is in descending order of size.
\<close>

theorem size_and_order:
  assumes "generateTools allow st specs = Inr catalog"
  shows "(\<forall>t\<in>set catalog.
            \<exists>ser. JSON_stringify st (size_object t) = Inr ser
                  \<and> tool_size t = Some (length ser)
                  \<and> (list_all is_ascii ser \<longrightarrow> tool_size t = Some (utf8_length ser)))
         \<and> sorted_wrt (\<lambda>a b. size_of b \<le> size_of a) catalog"
proof -
  have "\<exists>ser. JSON_stringify st (size_object t) = Inr ser
                  \<and> tool_size t = Some (length ser)
                  \<and> (list_all is_ascii ser \<longrightarrow> tool_size t = Some (utf8_length ser))"
    if "t \<in> set catalog" for t
  proof -
    from generateTools_member[OF assms that] obtain sp t1 where
      w: "withSize st t1 = Inr t" by blast
    from withSize_Inr[OF w] obtain ser where
      "JSON_stringify st (size_object t) = Inr ser" "tool_size t = Some (length ser)"
      by blast
    then show ?thesis using utf8_length_ascii[of ser] by auto
  qed
  moreover from generateTools_sized[OF assms]
  have "sorted_wrt (\<lambda>a b. size_of b \<le> size_of a) catalog"
    using sorted_descending by blast
  ultimately show ?thesis by blast
qed

theorem size_and_order_witness:
  "list_all is_ascii (projr (JSON_stringify [] (size_object (hd two_services_catalog))))
   \<and> tool_size (hd two_services_catalog)
       = Some (length (projr (JSON_stringify [] (size_object (hd two_services_catalog)))))
   \<and> tool_size (hd two_services_catalog)
       = Some (utf8_length (projr (JSON_stringify [] (size_object (hd two_services_catalog)))))
   \<and> sorted_wrt (\<lambda>a b. size_of b \<le> size_of a) two_services_catalog
   \<and> map tool_size two_services_catalog = [Some 85, Some 85]"
proof -
  have "\<not> isl (generateTools True [] [service_a, service_b])"
    by code_simp
  then have g: "generateTools True [] [service_a, service_b] = Inr two_services_catalog"
    by (simp add: two_services_catalog_def)
  have v: "map tool_size two_services_catalog = [Some 85, Some 85]"
    by code_simp
  then have "two_services_catalog \<noteq> []" by auto
  then have m: "hd two_services_catalog \<in> set two_services_catalog" by simp
  have a: "list_all is_ascii (projr (JSON_stringify [] (size_object (hd two_services_catalog))))"
    by code_simp
  from size_and_order[OF g] m obtain ser where
    j: "JSON_stringify [] (size_object (hd two_services_catalog)) = Inr ser"
    and n: "tool_size (hd two_services_catalog) = Some (length ser)"
    and u: "list_all is_ascii ser \<longrightarrow> tool_size (hd two_services_catalog) = Some (utf8_length ser)"
    and o: "sorted_wrt (\<lambda>a b. size_of b \<le> size_of a) two_services_catalog"
    by blast
  from j have "projr (JSON_stringify [] (size_object (hd two_services_catalog))) = ser" by simp
  with a n u o v show ?thesis by simp
qed

text \<open>
  C9 as stated fails: for a description with a character outside ASCII the size is the
  number of code units, one less here than the number of bytes.
\<close>

theorem size_is_not_byte_length_counterexample:
  "length latin1_catalog = 1
   \<and> description (hd latin1_catalog) = [CHR 0xE9]
   \<and> tool_size (hd latin1_catalog) = Some 81
   \<and> length (projr (JSON_stringify [] (size_object (hd latin1_catalog)))) = 81
   \<and> utf8_length (projr (JSON_stringify [] (size_object (hd latin1_catalog)))) = 82"
  by code_simp

end
